theory Spec2Isabelle
  imports Complex_Main "HOL-Library.AList" "HOL-Library.Sublist"
begin

section \<open>The authoritative game server of buildnow.js\<close>

text \<open>
  The server part of \<^verbatim>\<open>buildnow.js\<close> keeps one mutable world (players keyed by socket
  id, an array of builds, a counter for build ids) and registers five handlers per
  connection plus a periodic broadcast. Each handler is embedded as a function from the
  world before to the world after, together with the messages it emits.

  Conventions of the embedding:
  \<^item> A JavaScript number is a value of \<open>jsnum\<close>: \<open>Num r\<close> is the finite double whose value
    is the real \<open>r\<close>, beside \<open>Infinity\<close>, \<open>-Infinity\<close> and \<open>NaN\<close>. The operators \<open>+\<close>, \<open>-\<close>,
    \<open>*\<close>, \<open>/\<close> and \<open>Math.sqrt\<close> round their exact result to the nearest double, ties to
    even, as IEEE 754 binary64 does (\<open>round64\<close>), with underflow to zero and overflow to
    an infinity. The sign of a zero is not kept: this program compares zeros and never
    divides by a negative one (its only divisor is \<open>2*a\<close>, twice a sum of squares).
  \<^item> A payload is an object, and \<open>origin\<close> and \<open>direction\<close> of a shot are objects. A field
    that goes into arithmetic or into \<open>Math.min\<close> is given by the number that JavaScript
    makes of it (\<open>ToNumber\<close>): \<open>NaN\<close> when the field is absent or not numeric. \<open>type\<close> is
    any string; \<open>rotY\<close> may be absent.
  \<^item> \<open>health\<close> and \<open>nextBuildId\<close> only ever hold integers and are of type \<open>int\<close>
    (a double counts exactly up to \<open>2^53\<close>, which no run of the server comes near).
  \<^item> \<open>world.players\<close> is an object with string keys. It is an association list in
    insertion order, which is the order \<open>Object.entries\<close> enumerates socket ids in:
    assigning to a present key keeps its place, a new key goes to the end, \<open>delete\<close>
    removes the entry.
  \<^item> \<open>Math.random()\<close> is an input of the handler that calls it: a real \<open>r\<close> with
    \<open>0 \<le> r < 1\<close>.
  \<^item> Reading a property of \<open>undefined\<close> throws a \<open>TypeError\<close>; it is a value of the
    embedding.
  \<^item> Record fields carry a prefix (\<open>p_x\<close> for a player's \<open>x\<close>, \<open>b_x\<close> for a build's,
    \<open>bid\<close> and \<open>btype\<close> for a build's \<open>id\<close> and \<open>type\<close>), since field names are global.
\<close>

subsection \<open>Numbers\<close>

datatype jsnum = Num real | Infinity | NegInfinity | NaN

text \<open>Rounding a real to the nearest integer, a tie to the even one.\<close>

definition round_even :: "real \<Rightarrow> int" where
  "round_even y =
     (let f = \<lfloor>y\<rfloor> in
      if y - of_int f < 1/2 then f
      else if 1/2 < y - of_int f then f + 1
      else if even f then f else f + 1)"

text \<open>The exponent of the spacing of the doubles around \<open>x\<close>: 52 below the binary
  exponent of \<open>x\<close>, and \<open>-1074\<close> throughout the subnormal range.\<close>

definition quantum_exp :: "real \<Rightarrow> int" where
  "quantum_exp x = max \<lfloor>log 2 \<bar>x\<bar>\<rfloor> (- 1022) - 52"

text \<open>The double nearest to a real; beyond the largest double, an infinity.\<close>

definition round64 :: "real \<Rightarrow> jsnum" where
  "round64 x =
     (if x = 0 then Num 0
      else
        let q = 2 powi quantum_exp x;
            r = of_int (round_even (x / q)) * q
        in if 2 ^ 1024 \<le> r then Infinity
           else if r \<le> - (2 ^ 1024) then NegInfinity
           else Num r)"

fun js_neg :: "jsnum \<Rightarrow> jsnum" where
  "js_neg (Num a) = Num (- a)"
| "js_neg Infinity = NegInfinity"
| "js_neg NegInfinity = Infinity"
| "js_neg NaN = NaN"

fun js_add :: "jsnum \<Rightarrow> jsnum \<Rightarrow> jsnum" where
  "js_add NaN _ = NaN"
| "js_add _ NaN = NaN"
| "js_add (Num a) (Num b) = round64 (a + b)"
| "js_add (Num _) Infinity = Infinity"
| "js_add (Num _) NegInfinity = NegInfinity"
| "js_add Infinity NegInfinity = NaN"
| "js_add Infinity _ = Infinity"
| "js_add NegInfinity Infinity = NaN"
| "js_add NegInfinity _ = NegInfinity"

definition js_sub :: "jsnum \<Rightarrow> jsnum \<Rightarrow> jsnum" where
  "js_sub a b = js_add a (js_neg b)"

fun js_mul :: "jsnum \<Rightarrow> jsnum \<Rightarrow> jsnum" where
  "js_mul NaN _ = NaN"
| "js_mul _ NaN = NaN"
| "js_mul (Num a) (Num b) = round64 (a * b)"
| "js_mul (Num a) Infinity = (if a = 0 then NaN else if 0 < a then Infinity else NegInfinity)"
| "js_mul (Num a) NegInfinity = (if a = 0 then NaN else if 0 < a then NegInfinity else Infinity)"
| "js_mul Infinity (Num b) = (if b = 0 then NaN else if 0 < b then Infinity else NegInfinity)"
| "js_mul NegInfinity (Num b) = (if b = 0 then NaN else if 0 < b then NegInfinity else Infinity)"
| "js_mul Infinity Infinity = Infinity"
| "js_mul Infinity NegInfinity = NegInfinity"
| "js_mul NegInfinity Infinity = NegInfinity"
| "js_mul NegInfinity NegInfinity = Infinity"

text \<open>Division; a zero divisor counts as the positive zero.\<close>

fun js_div :: "jsnum \<Rightarrow> jsnum \<Rightarrow> jsnum" where
  "js_div NaN _ = NaN"
| "js_div _ NaN = NaN"
| "js_div (Num a) (Num b) =
     (if b = 0 then (if a = 0 then NaN else if 0 < a then Infinity else NegInfinity)
      else round64 (a / b))"
| "js_div (Num _) Infinity = Num 0"
| "js_div (Num _) NegInfinity = Num 0"
| "js_div Infinity (Num b) = (if 0 \<le> b then Infinity else NegInfinity)"
| "js_div NegInfinity (Num b) = (if 0 \<le> b then NegInfinity else Infinity)"
| "js_div Infinity _ = NaN"
| "js_div NegInfinity _ = NaN"

fun js_sqrt :: "jsnum \<Rightarrow> jsnum" where
  "js_sqrt (Num a) = (if a < 0 then NaN else round64 (sqrt a))"
| "js_sqrt Infinity = Infinity"
| "js_sqrt NegInfinity = NaN"
| "js_sqrt NaN = NaN"

text \<open>The comparison \<open><\<close> of JavaScript: false as soon as one side is \<open>NaN\<close>.\<close>

fun js_lt :: "jsnum \<Rightarrow> jsnum \<Rightarrow> bool" where
  "js_lt NaN _ = False"
| "js_lt _ NaN = False"
| "js_lt (Num a) (Num b) = (a < b)"
| "js_lt (Num _) Infinity = True"
| "js_lt (Num _) NegInfinity = False"
| "js_lt Infinity _ = False"
| "js_lt NegInfinity NegInfinity = False"
| "js_lt NegInfinity _ = True"

text \<open>\<open>Math.min\<close> and \<open>Math.max\<close> of two arguments: \<open>NaN\<close> as soon as one is.\<close>

fun js_min :: "jsnum \<Rightarrow> jsnum \<Rightarrow> jsnum" where
  "js_min NaN _ = NaN"
| "js_min _ NaN = NaN"
| "js_min a b = (if js_lt b a then b else a)"

fun js_max :: "jsnum \<Rightarrow> jsnum \<Rightarrow> jsnum" where
  "js_max NaN _ = NaN"
| "js_max _ NaN = NaN"
| "js_max a b = (if js_lt a b then b else a)"

subsection \<open>Data\<close>

record player =
  p_x :: jsnum
  p_y :: jsnum
  p_z :: jsnum
  rotationY :: jsnum
  health :: int

record build =
  bid :: int
  ownerId :: string
  btype :: string
  b_x :: jsnum
  b_y :: jsnum
  b_z :: jsnum
  rotY :: jsnum

record world =
  players :: "(string \<times> player) list"
  builds :: "build list"
  nextBuildId :: int

definition world0 :: world where
  "world0 = \<lparr>players = [], builds = [], nextBuildId = 1\<rparr>"

definition ARENA_LIMIT :: jsnum where
  "ARENA_LIMIT = Num 50"

definition clamp :: "jsnum \<Rightarrow> jsnum" where
  "clamp v = js_max (js_neg ARENA_LIMIT) (js_min ARENA_LIMIT v)"

subsection \<open>Payloads and messages\<close>

record move_data =
  m_x :: jsnum
  m_y :: jsnum
  m_z :: jsnum
  m_rotationY :: jsnum

record vec3 =
  v_x :: jsnum
  v_y :: jsnum
  v_z :: jsnum

record shoot_data =
  origin :: vec3
  direction :: vec3

record build_data =
  d_type :: string
  d_x :: jsnum
  d_y :: jsnum
  d_z :: jsnum
  d_rotY :: "jsnum option"

datatype message =
    InitState string "(string \<times> player) list" "build list"
  | PlayerJoined string player
  | PlayerHit string int
  | Respawn jsnum jsnum jsnum
  | BuildPlaced build
  | PlayerLeft string
  | WorldState "(string \<times> player) list" "build list"

datatype target = ToAll | ToSession string | ToOthers string

type_synonym emissions = "(target \<times> message) list"

datatype fault = TypeError

subsection \<open>Hit resolution: the loop of the shoot handler\<close>

record ray =
  ox :: jsnum
  oy :: jsnum
  oz :: jsnum
  dx :: jsnum
  dy :: jsnum
  dz :: jsnum

text \<open>One iteration of the loop over \<open>Object.entries(world.players)\<close>; the state is
  the pair \<open>(hitId, closest)\<close>.\<close>

definition scan_step ::
  "string \<Rightarrow> ray \<Rightarrow> string option \<times> jsnum \<Rightarrow> string \<times> player \<Rightarrow> string option \<times> jsnum" where
  "scan_step sid ry acc e =
     (let (hitId, closest) = acc; (i, pl) = e in
      if i = sid then (hitId, closest)
      else
        let cx = p_x pl; cy = js_add (p_y pl) (Num 0.5); cz = p_z pl;
            r = Num 0.5;
            ocx = js_sub (ox ry) cx; ocy = js_sub (oy ry) cy; ocz = js_sub (oz ry) cz;
            a = js_add (js_add (js_mul (dx ry) (dx ry)) (js_mul (dy ry) (dy ry)))
                       (js_mul (dz ry) (dz ry));
            b = js_mul (Num 2)
                  (js_add (js_add (js_mul ocx (dx ry)) (js_mul ocy (dy ry)))
                          (js_mul ocz (dz ry)));
            c = js_sub (js_add (js_add (js_mul ocx ocx) (js_mul ocy ocy)) (js_mul ocz ocz))
                       (js_mul r r);
            disc = js_sub (js_mul b b) (js_mul (js_mul (Num 4) a) c)
        in if js_lt disc (Num 0) then (hitId, closest)
           else
             let t = js_div (js_sub (js_neg b) (js_sqrt disc)) (js_mul (Num 2) a)
             in if js_lt (Num 0) t \<and> js_lt t closest then (Some i, t)
                else (hitId, closest))"

definition scan :: "string \<Rightarrow> ray \<Rightarrow> (string \<times> player) list \<Rightarrow> string option \<times> jsnum" where
  "scan sid ry ps = foldl (scan_step sid ry) (None, Infinity) ps"

definition resolveHit :: "string \<Rightarrow> ray \<Rightarrow> (string \<times> player) list \<Rightarrow> string option" where
  "resolveHit sid ry ps = fst (scan sid ry ps)"

subsection \<open>Handlers\<close>

definition on_connection :: "string \<Rightarrow> real \<Rightarrow> real \<Rightarrow> world \<Rightarrow> world \<times> emissions" where
  "on_connection sid r1 r2 w =
     (let spawn = \<lparr>p_x = js_mul (js_sub (Num r1) (Num 0.5)) (Num 30), p_y = Num 1,
                   p_z = js_mul (js_sub (Num r2) (Num 0.5)) (Num 30),
                   rotationY = Num 0, health = 100\<rparr>;
          w' = w\<lparr>players := AList.update sid spawn (players w)\<rparr>
      in (w', [(ToSession sid, InitState sid (players w') (builds w')),
               (ToOthers sid, PlayerJoined sid spawn)]))"

definition on_move :: "string \<Rightarrow> move_data \<Rightarrow> world \<Rightarrow> world \<times> emissions" where
  "on_move sid data w =
     (case map_of (players w) sid of
        None \<Rightarrow> (w, [])
      | Some p \<Rightarrow>
          (w\<lparr>players := AList.update sid
                (p\<lparr>p_x := clamp (m_x data), p_y := clamp (m_y data),
                   p_z := clamp (m_z data), rotationY := m_rotationY data\<rparr>)
                (players w)\<rparr>, []))"

text \<open>The body of \<open>if (hitId) { ... }\<close> for a non-empty \<open>hitId\<close>: twenty points of
  damage, the respawn when health is used up, and the messages.\<close>

definition damage :: "string \<Rightarrow> real \<Rightarrow> real \<Rightarrow> world \<Rightarrow> fault + world \<times> emissions" where
  "damage hitId r1 r2 w =
     (case map_of (players w) hitId of
        None \<Rightarrow> Inl TypeError
      | Some victim \<Rightarrow>
          let v1 = victim\<lparr>health := health victim - 20\<rparr> in
          if health v1 \<le> 0 then
            let v2 = v1\<lparr>p_x := js_mul (js_sub (Num r1) (Num 0.5)) (Num 30), p_y := Num 1,
                        p_z := js_mul (js_sub (Num r2) (Num 0.5)) (Num 30),
                        health := 100\<rparr>
            in Inr (w\<lparr>players := AList.update hitId v2 (players w)\<rparr>,
                    [(ToSession hitId, Respawn (p_x v2) (p_y v2) (p_z v2)),
                     (ToAll, PlayerHit hitId (health v2))])
          else Inr (w\<lparr>players := AList.update hitId v1 (players w)\<rparr>,
                    [(ToAll, PlayerHit hitId (health v1))]))"

definition on_shoot ::
  "string \<Rightarrow> shoot_data \<Rightarrow> real \<Rightarrow> real \<Rightarrow> world \<Rightarrow> fault + world \<times> emissions" where
  "on_shoot sid data r1 r2 w =
     (case map_of (players w) sid of
        None \<Rightarrow> Inr (w, [])
      | Some shooter \<Rightarrow>
          let ry = \<lparr>ox = v_x (origin data), oy = v_y (origin data), oz = v_z (origin data),
                    dx = v_x (direction data), dy = v_y (direction data),
                    dz = v_z (direction data)\<rparr>
          in (case resolveHit sid ry (players w) of
                None \<Rightarrow> Inr (w, [])
              | Some hitId \<Rightarrow> if hitId = [] then Inr (w, []) else damage hitId r1 r2 w))"

definition on_placeBuild :: "string \<Rightarrow> build_data \<Rightarrow> world \<Rightarrow> world \<times> emissions" where
  "on_placeBuild sid data w =
     (let b = \<lparr>bid = nextBuildId w, ownerId = sid, btype = d_type data,
               b_x = clamp (d_x data), b_y = clamp (d_y data), b_z = clamp (d_z data),
               rotY = (case d_rotY data of
                         None \<Rightarrow> Num 0
                       | Some r \<Rightarrow> if r = Num 0 \<or> r = NaN then Num 0 else r)\<rparr>
      in (w\<lparr>builds := builds w @ [b], nextBuildId := nextBuildId w + 1\<rparr>,
          [(ToAll, BuildPlaced b)]))"

definition on_disconnect :: "string \<Rightarrow> world \<Rightarrow> world \<times> emissions" where
  "on_disconnect sid w =
     (w\<lparr>players := AList.delete sid (players w),
        builds := filter (\<lambda>b. ownerId b \<noteq> sid) (builds w)\<rparr>,
      [(ToAll, PlayerLeft sid)])"

definition on_tick :: "world \<Rightarrow> world \<times> emissions" where
  "on_tick w = (w, [(ToAll, WorldState (players w) (builds w))])"

subsection \<open>Runs of the server\<close>

datatype command =
    Connection string real real
  | Move string move_data
  | Shoot string shoot_data real real
  | PlaceBuild string build_data
  | Disconnect string
  | Tick

fun step :: "command \<Rightarrow> world \<Rightarrow> fault + world \<times> emissions" where
  "step (Connection sid r1 r2) w = Inr (on_connection sid r1 r2 w)"
| "step (Move sid data) w = Inr (on_move sid data w)"
| "step (Shoot sid data r1 r2) w = on_shoot sid data r1 r2 w"
| "step (PlaceBuild sid data) w = Inr (on_placeBuild sid data w)"
| "step (Disconnect sid) w = Inr (on_disconnect sid w)"
| "step Tick w = Inr (on_tick w)"

fun run :: "command list \<Rightarrow> world \<Rightarrow> fault + world \<times> emissions" where
  "run [] w = Inr (w, [])"
| "run (c # cs) w =
     (case step c w of
        Inl f \<Rightarrow> Inl f
      | Inr (w', out) \<Rightarrow>
          (case run cs w' of
             Inl f \<Rightarrow> Inl f
           | Inr (w'', out') \<Rightarrow> Inr (w'', out @ out')))"

text \<open>\<open>Math.random()\<close> returns a number in \<open>[0, 1)\<close>.\<close>

definition is_random :: "real \<Rightarrow> bool" where
  "is_random r = (0 \<le> r \<and> r < 1)"

fun wf_command :: "command \<Rightarrow> bool" where
  "wf_command (Connection sid r1 r2) = (is_random r1 \<and> is_random r2)"
| "wf_command (Shoot sid data r1 r2) = (is_random r1 \<and> is_random r2)"
| "wf_command _ = True"

text \<open>A move command whose three coordinates are numbers: none is absent or not
  numeric.\<close>

fun numeric_command :: "command \<Rightarrow> bool" where
  "numeric_command (Move sid data) = (m_x data \<noteq> NaN \<and> m_y data \<noteq> NaN \<and> m_z data \<noteq> NaN)"
| "numeric_command _ = True"

subsection \<open>The quantities of the ray-sphere test\<close>

text \<open>
  The values that one iteration of the loop computes for a candidate \<open>pl\<close>, as functions
  of the ray and the candidate. A candidate is hit when it is not the shooter, the
  discriminant is not below zero and the smaller root is above zero and below \<open>Infinity\<close>,
  which is where \<open>closest\<close> starts.
\<close>

definition quad_a :: "ray \<Rightarrow> jsnum" where
  "quad_a ry = js_add (js_add (js_mul (dx ry) (dx ry)) (js_mul (dy ry) (dy ry)))
                      (js_mul (dz ry) (dz ry))"

definition quad_b :: "ray \<Rightarrow> player \<Rightarrow> jsnum" where
  "quad_b ry pl =
     js_mul (Num 2)
       (js_add (js_add (js_mul (js_sub (ox ry) (p_x pl)) (dx ry))
                       (js_mul (js_sub (oy ry) (js_add (p_y pl) (Num 0.5))) (dy ry)))
               (js_mul (js_sub (oz ry) (p_z pl)) (dz ry)))"

definition quad_c :: "ray \<Rightarrow> player \<Rightarrow> jsnum" where
  "quad_c ry pl =
     js_sub
       (js_add (js_add (js_mul (js_sub (ox ry) (p_x pl)) (js_sub (ox ry) (p_x pl)))
                       (js_mul (js_sub (oy ry) (js_add (p_y pl) (Num 0.5)))
                               (js_sub (oy ry) (js_add (p_y pl) (Num 0.5)))))
               (js_mul (js_sub (oz ry) (p_z pl)) (js_sub (oz ry) (p_z pl))))
       (js_mul (Num 0.5) (Num 0.5))"

definition discriminant :: "ray \<Rightarrow> player \<Rightarrow> jsnum" where
  "discriminant ry pl =
     js_sub (js_mul (quad_b ry pl) (quad_b ry pl))
            (js_mul (js_mul (Num 4) (quad_a ry)) (quad_c ry pl))"

definition smaller_root :: "ray \<Rightarrow> player \<Rightarrow> jsnum" where
  "smaller_root ry pl =
     js_div (js_sub (js_neg (quad_b ry pl)) (js_sqrt (discriminant ry pl)))
            (js_mul (Num 2) (quad_a ry))"

definition is_hit :: "string \<Rightarrow> ray \<Rightarrow> string \<times> player \<Rightarrow> bool" where
  "is_hit sid ry e =
     (fst e \<noteq> sid \<and> \<not> js_lt (discriminant ry (snd e)) (Num 0)
      \<and> js_lt (Num 0) (smaller_root ry (snd e))
      \<and> js_lt (smaller_root ry (snd e)) Infinity)"

text \<open>The smaller root as a real, for the candidates whose root is a finite number.\<close>

definition root_value :: "ray \<Rightarrow> player \<Rightarrow> real" where
  "root_value ry pl = (case smaller_root ry pl of Num t \<Rightarrow> t | _ \<Rightarrow> 0)"

text \<open>The comparison \<open><=\<close> of JavaScript, and the signs a value can have.\<close>

fun js_le :: "jsnum \<Rightarrow> jsnum \<Rightarrow> bool" where
  "js_le NaN _ = False"
| "js_le _ NaN = False"
| "js_le a b = (\<not> js_lt b a)"

fun not_negative :: "jsnum \<Rightarrow> bool" where
  "not_negative (Num a) = (0 \<le> a)"
| "not_negative NegInfinity = False"
| "not_negative _ = True"

fun not_positive :: "jsnum \<Rightarrow> bool" where
  "not_positive (Num a) = (a \<le> 0)"
| "not_positive Infinity = False"
| "not_positive _ = True"

fun zero_or_nan :: "jsnum \<Rightarrow> bool" where
  "zero_or_nan (Num a) = (a = 0)"
| "zero_or_nan NaN = True"
| "zero_or_nan _ = False"

text \<open>The health that a snapshot of the world shows for a session.\<close>

definition stored_health :: "world \<Rightarrow> string \<Rightarrow> int option" where
  "stored_health w k = map_option health (map_of (players w) k)"

subsection \<open>Predicates on worlds, commands and messages\<close>

text \<open>The bounds of the arena and of health, for one player and for all stored players;
  the range of a spawn position in the messages that carry one.\<close>

definition in_arena :: "jsnum \<Rightarrow> bool" where
  "in_arena v = (js_le (Num (- 50)) v \<and> js_le v (Num 50))"

definition in_spawn_range :: "jsnum \<Rightarrow> bool" where
  "in_spawn_range v = (js_le (Num (- 15)) v \<and> js_le v (Num 15))"

definition player_ok :: "player \<Rightarrow> bool" where
  "player_ok p =
     (in_arena (p_x p) \<and> in_arena (p_y p) \<and> in_arena (p_z p)
      \<and> 0 \<le> health p \<and> health p \<le> 100)"

definition world_inv :: "world \<Rightarrow> bool" where
  "world_inv w = list_all (\<lambda>e. player_ok (snd e)) (players w)"

fun spawn_message_ok :: "target \<times> message \<Rightarrow> bool" where
  "spawn_message_ok (t, PlayerJoined k p) =
     (in_spawn_range (p_x p) \<and> p_y p = Num 1 \<and> in_spawn_range (p_z p))"
| "spawn_message_ok (t, Respawn a b c) = (in_spawn_range a \<and> b = Num 1 \<and> in_spawn_range c)"
| "spawn_message_ok _ = True"

text \<open>The builds and the ids that a sequence of emitted messages announces in
  \<open>buildPlaced\<close>, the four build types that the client offers, and the commands whose type
  is one of them.\<close>

fun announced :: "emissions \<Rightarrow> build list" where
  "announced [] = []"
| "announced ((t, BuildPlaced b) # out) = b # announced out"
| "announced (m # out) = announced out"

fun placed_ids :: "emissions \<Rightarrow> int list" where
  "placed_ids [] = []"
| "placed_ids ((t, BuildPlaced b) # out) = bid b # placed_ids out"
| "placed_ids (m # out) = placed_ids out"

definition build_types :: "string set" where
  "build_types = {''wall'', ''floor'', ''ramp'', ''roof''}"

fun typed_command :: "command \<Rightarrow> bool" where
  "typed_command (PlaceBuild sid data) = (d_type data \<in> build_types)"
| "typed_command _ = True"

text \<open>The \<open>placeBuild\<close> commands of a run in their order, each with the id it is due
  (counting from \<open>n\<close>), its session and the type it sends.\<close>

fun sent :: "int \<Rightarrow> command list \<Rightarrow> (int \<times> string \<times> string) list" where
  "sent n [] = []"
| "sent n (PlaceBuild sid data # cs) = (n, sid, d_type data) # sent (n + 1) cs"
| "sent n (c # cs) = sent n cs"

text \<open>The stored builds are in the order of their ids, all below the counter.\<close>

definition ids_inv :: "world \<Rightarrow> bool" where
  "ids_inv w = (sorted_wrt (<) (map bid (builds w))
                \<and> list_all (\<lambda>b. bid b < nextBuildId w) (builds w))"

subsection \<open>A very short direction\<close>

text \<open>The double \<open>2^-600\<close>, whose square is below the smallest positive double.\<close>

definition tiny :: real where
  "tiny = 1 / 2 ^ 600"

section \<open>Properties\<close>

subsection \<open>Rounding to a double\<close>

lemma round_even_int: "round_even (of_int n) = n"
  by (simp add: round_even_def)

lemma round_even_le: "y \<le> of_int n \<Longrightarrow> round_even y \<le> n"
proof -
  assume a: "y \<le> of_int n"
  show ?thesis
  proof (cases "y = of_int n")
    case True
    then show ?thesis by (simp add: round_even_int)
  next
    case False
    with a have "y < of_int n" by simp
    then have "\<lfloor>y\<rfloor> < n" by (simp add: floor_less_iff)
    then show ?thesis by (simp add: round_even_def Let_def)
  qed
qed

lemma round_even_ge: "of_int n \<le> y \<Longrightarrow> n \<le> round_even y"
proof -
  assume "of_int n \<le> y"
  then have "n \<le> \<lfloor>y\<rfloor>" by (simp add: le_floor_iff)
  then show ?thesis by (simp add: round_even_def Let_def)
qed

lemma round_even_small: "\<bar>y\<bar> < 1/2 \<Longrightarrow> round_even y = 0"
proof (cases "0 \<le> y")
  case True
  assume "\<bar>y\<bar> < 1/2"
  with True have "\<lfloor>y\<rfloor> = 0" by (simp add: floor_eq_iff)
  with True \<open>\<bar>y\<bar> < 1/2\<close> show ?thesis by (simp add: round_even_def)
next
  case False
  assume "\<bar>y\<bar> < 1/2"
  with False have f: "\<lfloor>y\<rfloor> = - 1" by (simp add: floor_eq_iff)
  with False \<open>\<bar>y\<bar> < 1/2\<close> show ?thesis by (simp add: round_even_def)
qed

lemma quantum_pos: "0 < (2::real) powi k"
  by simp

lemma floor_log_le:
  assumes "0 < y"
  shows "2 powi \<lfloor>log 2 y\<rfloor> \<le> y"
proof -
  have "2 powr real_of_int \<lfloor>log 2 y\<rfloor> \<le> y"
    using assms floor_log_eq_powr_iff [of y 2 "\<lfloor>log 2 y\<rfloor>"] by simp
  then show ?thesis by (simp add: powr_real_of_int')
qed

lemma floor_log_less:
  assumes "0 < y" and "y < 2 powi k"
  shows "\<lfloor>log 2 y\<rfloor> < k"
proof -
  have "y < 2 powr real_of_int k" using assms(2) by (simp add: powr_real_of_int')
  then have "log 2 y < real_of_int k" using assms(1) by (simp add: log_less_iff)
  then show ?thesis by (simp add: floor_less_iff)
qed

text \<open>A representable bound above \<open>\<bar>x\<bar>\<close> is a whole multiple of the quantum of \<open>x\<close>.\<close>

lemma quantum_divides:
  assumes "x \<noteq> 0" and "\<bar>x\<bar> \<le> of_int M * 2 powi K" and "0 < M" and "M < 2 ^ 53"
    and "- 1074 \<le> K"
  shows "\<exists>N>0. (of_int M :: real) * 2 powi K = of_int N * 2 powi quantum_exp x"
proof -
  let ?e = "\<lfloor>log 2 \<bar>x\<bar>\<rfloor>"
  have pos: "0 < \<bar>x\<bar>" using assms(1) by simp
  have "2 powi ?e \<le> \<bar>x\<bar>" by (rule floor_log_le [OF pos])
  also have "\<dots> \<le> of_int M * 2 powi K" by (rule assms(2))
  also have "\<dots> < 2 ^ 53 * 2 powi K"
  proof -
    have "(of_int M :: real) < 2 ^ 53" using assms(4) by (metis of_int_less_iff of_int_numeral of_int_power)
    then show ?thesis by simp
  qed
  also have "\<dots> = 2 powi (53 + K)" by (simp add: power_int_add)
  finally have "2 powi ?e < (2::real) powi (53 + K)" .
  then have "?e < 53 + K"
  proof -
    assume lt: "2 powi ?e < (2::real) powi (53 + K)"
    show ?thesis
    proof (rule ccontr)
      assume "\<not> ?e < 53 + K"
      then have "53 + K \<le> ?e" by simp
      then have "(2::real) powi (53 + K) \<le> 2 powi ?e" by (rule power_int_increasing) simp
      with lt show False by simp
    qed
  qed
  then have le: "quantum_exp x \<le> K" using assms(5) by (simp add: quantum_exp_def)
  define n where "n = nat (K - quantum_exp x)"
  have K: "K = quantum_exp x + int n" using le by (simp add: n_def)
  have "(2::real) powi K = 2 ^ n * 2 powi quantum_exp x"
    by (subst K) (simp add: power_int_add)
  then have "of_int M * (2::real) powi K = of_int (M * 2 ^ n) * 2 powi quantum_exp x"
    by simp
  moreover have "0 < M * 2 ^ n" using assms(3) by simp
  ultimately show ?thesis by blast
qed

lemma round64_zero: "round64 0 = Num 0"
  by (simp add: round64_def)

lemma round64_bounded:
  assumes "\<bar>x\<bar> \<le> of_int M * 2 powi K" and "0 < M" and "M < 2 ^ 53"
    and "- 1074 \<le> K" and "K \<le> 971"
  shows "\<exists>r. round64 x = Num r \<and> \<bar>r\<bar> \<le> of_int M * 2 powi K"
proof (cases "x = 0")
  case True
  with assms(1) show ?thesis by (simp add: round64_zero)
next
  case False
  let ?q = "(2::real) powi quantum_exp x"
  let ?B = "of_int M * (2::real) powi K"
  from quantum_divides [OF False assms(1-4)] obtain N where N: "0 < N" "?B = of_int N * ?q"
    by blast
  have q: "0 < ?q" by simp
  have "\<bar>x\<bar> \<le> of_int N * ?q" using assms(1) N(2) by simp
  then have "\<bar>x\<bar> / ?q \<le> of_int N" using q by (simp add: pos_divide_le_eq)
  then have ab: "\<bar>x / ?q\<bar> \<le> of_int N" using q by (simp only: abs_div_pos)
  have u: "x / ?q \<le> of_int N" using ab by linarith
  have "- of_int N \<le> x / ?q" using ab by linarith
  then have l: "of_int (- N) \<le> x / ?q" by (simp only: of_int_minus)
  let ?m = "round_even (x / ?q)"
  have "?m \<le> N" by (rule round_even_le [OF u])
  moreover have "- N \<le> ?m" by (rule round_even_ge [OF l])
  ultimately have "\<bar>?m\<bar> \<le> N" by simp
  then have "\<bar>of_int ?m :: real\<bar> \<le> of_int N" by (metis of_int_abs of_int_le_iff)
  then have "\<bar>of_int ?m * ?q\<bar> \<le> of_int N * ?q" using q by (simp add: abs_mult)
  then have b: "\<bar>of_int ?m * ?q\<bar> \<le> ?B" using N(2) by simp
  have "?B < 2 ^ 53 * 2 powi K"
  proof -
    have "(of_int M :: real) < 2 ^ 53" using assms(3) by (metis of_int_less_iff of_int_numeral of_int_power)
    then show ?thesis by simp
  qed
  also have "\<dots> = 2 powi (53 + K)" by (simp add: power_int_add)
  also have "\<dots> \<le> 2 powi 1024" using assms(5) by (intro power_int_increasing) simp_all
  finally have "?B < 2 ^ 1024" by simp
  with b have "\<bar>of_int ?m * ?q\<bar> < 2 ^ 1024" by linarith
  then have "\<not> 2 ^ 1024 \<le> of_int ?m * ?q" and "\<not> of_int ?m * ?q \<le> - (2 ^ 1024)" by linarith+
  then have "round64 x = Num (of_int ?m * ?q)"
    using False by (simp add: round64_def Let_def)
  with b show ?thesis by blast
qed

lemma round64_exact:
  assumes "x = of_int m * 2 powi K" and "\<bar>m\<bar> < 2 ^ 53" and "- 1074 \<le> K" and "K \<le> 971"
  shows "round64 x = Num x"
proof (cases "x = 0")
  case True
  then show ?thesis by (simp add: round64_zero)
next
  case False
  define q :: real where "q = 2 powi quantum_exp x"
  have q: "0 < q" by (simp add: q_def)
  have m0: "m \<noteq> 0" using False assms(1) by auto
  have ax: "\<bar>x\<bar> = of_int \<bar>m\<bar> * 2 powi K" by (simp add: assms(1) abs_mult)
  have le: "\<bar>x\<bar> \<le> of_int \<bar>m\<bar> * 2 powi K" by (simp add: ax)
  have mp: "0 < \<bar>m\<bar>" using m0 by simp
  have ml: "\<bar>m\<bar> < 2 ^ 53" using assms(2) by simp
  from quantum_divides [OF False le mp ml assms(3)]
  obtain N where N: "0 < N" "(of_int \<bar>m\<bar> :: real) * 2 powi K = of_int N * q"
    unfolding q_def by blast
  have "\<exists>n::int. x = of_int n * q"
  proof (cases "0 \<le> x")
    case True
    then have "x = of_int N * q" using ax N(2) by simp
    then show ?thesis ..
  next
    case F: False
    then have "x = of_int (- N) * q" using ax N(2) by simp
    then show ?thesis ..
  qed
  then obtain n :: int where n: "x = of_int n * q" ..
  have "x / q = of_int n" using q by (simp add: n)
  then have "round_even (x / q) = n" by (simp only: round_even_int)
  then have r: "of_int (round_even (x / q)) * q = x" by (simp only: n)
  have "\<bar>x\<bar> < 2 ^ 53 * 2 powi K"
  proof -
    have "(of_int \<bar>m\<bar> :: real) < 2 ^ 53"
      using assms(2) by (metis of_int_less_iff of_int_numeral of_int_power)
    then show ?thesis by (simp add: ax)
  qed
  also have "\<dots> = 2 powi (53 + K)" by (simp add: power_int_add)
  also have "\<dots> \<le> 2 powi 1024" using assms(4) by (intro power_int_increasing) simp_all
  finally have "\<bar>x\<bar> < 2 ^ 1024" by simp
  then have "\<not> 2 ^ 1024 \<le> x" and "\<not> x \<le> - (2 ^ 1024)" by linarith+
  then show ?thesis using False r unfolding q_def by (simp add: round64_def Let_def)
qed

lemma round64_tiny:
  assumes "\<bar>x\<bar> < 2 powi (- 1075)"
  shows "round64 x = Num 0"
proof (cases "x = 0")
  case True
  then show ?thesis by (simp add: round64_zero)
next
  case False
  then have pos: "0 < \<bar>x\<bar>" by simp
  have "\<lfloor>log 2 \<bar>x\<bar>\<rfloor> < - 1075" by (rule floor_log_less [OF pos assms])
  then have q: "quantum_exp x = - 1074" by (simp add: quantum_exp_def)
  have "\<bar>x\<bar> / 2 powi (- 1074) < 2 powi (- 1075) / 2 powi (- 1074)"
    using assms by (simp add: divide_strict_right_mono)
  also have "\<dots> = 1/2"
  proof -
    have "(2::real) powi (- 1074) = 2 * 2 powi (- 1075)"
      using power_int_add_1' [of "2::real" "- 1075"] by simp
    then show ?thesis by simp
  qed
  finally have "\<bar>x\<bar> / 2 powi (- 1074) < 1/2" .
  then have "\<bar>x / 2 powi (- 1074)\<bar> < 1/2" by (simp only: abs_div_pos [OF quantum_pos])
  then have "round_even (x / 2 powi (- 1074)) = 0" by (rule round_even_small)
  then show ?thesis using False q by (simp add: round64_def Let_def)
qed

lemma round64_sign:
  "round64 x \<noteq> NaN"
  "0 \<le> x \<Longrightarrow> round64 x \<noteq> NegInfinity"
  "0 \<le> x \<Longrightarrow> round64 x = Num r \<Longrightarrow> 0 \<le> r"
  "x \<le> 0 \<Longrightarrow> round64 x \<noteq> Infinity"
  "x \<le> 0 \<Longrightarrow> round64 x = Num r \<Longrightarrow> r \<le> 0"
proof -
  let ?q = "(2::real) powi quantum_exp x"
  let ?m = "round_even (x / ?q)"
  have q: "0 < ?q" by simp
  show "round64 x \<noteq> NaN" by (simp add: round64_def Let_def)
  {
    assume "0 \<le> x"
    then have "of_int 0 \<le> x / ?q" using q by simp
    then have "0 \<le> ?m" by (rule round_even_ge)
    then have "0 \<le> of_int ?m * ?q" using q by simp
  } note p = this
  {
    assume "x \<le> 0"
    then have "x / ?q \<le> of_int 0" using q by (simp add: divide_le_0_iff)
    then have "?m \<le> 0" by (rule round_even_le)
    then have "of_int ?m * ?q \<le> 0" using q by (simp add: mult_le_0_iff)
  } note n = this
  show "0 \<le> x \<Longrightarrow> round64 x \<noteq> NegInfinity"
    using p by (auto simp: round64_def Let_def)
  show "0 \<le> x \<Longrightarrow> round64 x = Num r \<Longrightarrow> 0 \<le> r"
    using p by (auto simp: round64_def Let_def split: if_splits)
  show "x \<le> 0 \<Longrightarrow> round64 x \<noteq> Infinity"
    using n by (auto simp: round64_def Let_def)
  show "x \<le> 0 \<Longrightarrow> round64 x = Num r \<Longrightarrow> r \<le> 0"
    using n by (auto simp: round64_def Let_def split: if_splits)
qed

subsection \<open>Doubles that are their own rounding\<close>

lemma round64_of_int:
  assumes "\<bar>m\<bar> < 2 ^ 53"
  shows "round64 (of_int m) = Num (of_int m)"
  using round64_exact [of "of_int m" m 0] assms by simp

lemma round64_dyadic:
  assumes "\<bar>m\<bar> < 2 ^ 53" and "k \<le> 1074"
  shows "round64 (of_int m / 2 ^ k) = Num (of_int m / 2 ^ k)"
proof -
  have "(of_int m :: real) / 2 ^ k = of_int m * 2 powi (- int k)"
    by (simp add: power_int_minus field_simps)
  from round64_exact [OF this assms(1)] assms(2) show ?thesis by simp
qed

lemma round64_numeral [simp]:
  "(numeral n :: int) < 2 ^ 53 \<Longrightarrow> round64 (numeral n) = Num (numeral n)"
  using round64_of_int [of "numeral n"] by simp

lemma round64_neg_numeral [simp]:
  "(numeral n :: int) < 2 ^ 53 \<Longrightarrow> round64 (- numeral n) = Num (- numeral n)"
  using round64_of_int [of "- numeral n"] by simp

lemma round64_one [simp]: "round64 1 = Num 1"
  using round64_of_int [of 1] by simp

lemma round64_neg_one [simp]: "round64 (- 1) = Num (- 1)"
  using round64_of_int [of "- 1"] by simp

lemma round64_halves [simp]:
  "(numeral n :: int) < 2 ^ 53 \<Longrightarrow> round64 (numeral n / 2) = Num (numeral n / 2)"
  "(numeral n :: int) < 2 ^ 53 \<Longrightarrow> round64 (- (numeral n / 2)) = Num (- (numeral n / 2))"
  "round64 (1 / 2) = Num (1 / 2)"
  "round64 (- (1 / 2)) = Num (- (1 / 2))"
  using round64_dyadic [of "numeral n" 1] round64_dyadic [of "- numeral n" 1]
    round64_dyadic [of 1 1] round64_dyadic [of "- 1" 1]
  by simp_all

lemma round64_quarters [simp]:
  "(numeral n :: int) < 2 ^ 53 \<Longrightarrow> round64 (numeral n / 4) = Num (numeral n / 4)"
  "(numeral n :: int) < 2 ^ 53 \<Longrightarrow> round64 (- (numeral n / 4)) = Num (- (numeral n / 4))"
  "round64 (1 / 4) = Num (1 / 4)"
  "round64 (- (1 / 4)) = Num (- (1 / 4))"
  using round64_dyadic [of "numeral n" 2] round64_dyadic [of "- numeral n" 2]
    round64_dyadic [of 1 2] round64_dyadic [of "- 1" 2]
  by simp_all

declare round64_zero [simp]

subsection \<open>Clamping and placement\<close>

lemma clamp_Num: "clamp (Num v) = Num (max (- 50) (min 50 v))"
  by (simp add: clamp_def ARENA_LIMIT_def max_def min_def)

lemma clamp_special:
  "clamp Infinity = Num 50" "clamp NegInfinity = Num (- 50)" "clamp NaN = NaN"
  by (simp_all add: clamp_def ARENA_LIMIT_def)

lemma clamp_in_arena: "v \<noteq> NaN \<Longrightarrow> in_arena (clamp v)"
  by (cases v) (simp_all add: clamp_Num clamp_special in_arena_def)

text \<open>
  Claim C9. A \<open>placeBuild\<close> command from a session that has a player is never rejected:
  the handler appends one build whose \<open>x\<close>, \<open>y\<close>, \<open>z\<close> are the command's values clamped
  to \<open>[-50, 50]\<close>, and broadcasts it. In particular \<open>x = 1000\<close> is stored as \<open>50\<close>.
\<close>

theorem placeBuild_clamps:
  "map_of (players w) sid = Some p \<Longrightarrow>
   on_placeBuild sid data w =
     (w\<lparr>builds := builds w @
           [\<lparr>bid = nextBuildId w, ownerId = sid, btype = d_type data,
             b_x = clamp (d_x data), b_y = clamp (d_y data), b_z = clamp (d_z data),
             rotY = (case d_rotY data of
                       None \<Rightarrow> Num 0
                     | Some r \<Rightarrow> if r = Num 0 \<or> r = NaN then Num 0 else r)\<rparr>],
         nextBuildId := nextBuildId w + 1\<rparr>,
      [(ToAll, BuildPlaced
          \<lparr>bid = nextBuildId w, ownerId = sid, btype = d_type data,
           b_x = clamp (d_x data), b_y = clamp (d_y data), b_z = clamp (d_z data),
           rotY = (case d_rotY data of
                     None \<Rightarrow> Num 0
                   | Some r \<Rightarrow> if r = Num 0 \<or> r = NaN then Num 0 else r)\<rparr>)])
   \<and> (\<forall>v. clamp (Num v) = Num (max (- 50) (min 50 v)))
   \<and> clamp Infinity = Num 50 \<and> clamp NegInfinity = Num (- 50)
   \<and> (\<forall>v. d_x data = Num v \<longrightarrow>
         b_x (last (builds (fst (on_placeBuild sid data w)))) = Num (max (- 50) (min 50 v)))
   \<and> (\<forall>v. d_y data = Num v \<longrightarrow>
         b_y (last (builds (fst (on_placeBuild sid data w)))) = Num (max (- 50) (min 50 v)))
   \<and> (\<forall>v. d_z data = Num v \<longrightarrow>
         b_z (last (builds (fst (on_placeBuild sid data w)))) = Num (max (- 50) (min 50 v)))
   \<and> (d_x data = Num 1000 \<longrightarrow> b_x (last (builds (fst (on_placeBuild sid data w)))) = Num 50)"
  by (simp add: on_placeBuild_def Let_def clamp_Num clamp_special)

theorem placeBuild_clamps_witness:
  "on_placeBuild ''A''
     \<lparr>d_type = ''wall'', d_x = Num 1000, d_y = Num 1, d_z = Num (- 70), d_rotY = None\<rparr>
     \<lparr>players = [(''A'', \<lparr>p_x = Num 0, p_y = Num 1, p_z = Num 0, rotationY = Num 0,
                         health = 100\<rparr>)],
      builds = [], nextBuildId = 1\<rparr>
   = (\<lparr>players = [(''A'', \<lparr>p_x = Num 0, p_y = Num 1, p_z = Num 0, rotationY = Num 0,
                           health = 100\<rparr>)],
       builds = [\<lparr>bid = 1, ownerId = ''A'', btype = ''wall'', b_x = Num 50, b_y = Num 1,
                  b_z = Num (- 50), rotY = Num 0\<rparr>],
       nextBuildId = 2\<rparr>,
      [(ToAll, BuildPlaced \<lparr>bid = 1, ownerId = ''A'', btype = ''wall'', b_x = Num 50,
                            b_y = Num 1, b_z = Num (- 50), rotY = Num 0\<rparr>)])"
proof -
  let ?p = "\<lparr>p_x = Num 0, p_y = Num 1, p_z = Num 0, rotationY = Num 0, health = 100\<rparr>"
  let ?w = "\<lparr>players = [(''A'', ?p)], builds = [], nextBuildId = 1\<rparr>"
  have h: "map_of (players ?w) ''A'' = Some ?p" by simp
  from placeBuild_clamps [OF h,
      of "\<lparr>d_type = ''wall'', d_x = Num 1000, d_y = Num 1, d_z = Num (- 70), d_rotY = None\<rparr>"]
  show ?thesis by (simp add: clamp_Num)
qed

text \<open>
  Claim C3 says that a \<open>placeBuild\<close> command of a session without a player is discarded.
  The handler has no such guard (the \<open>move\<close> and \<open>shoot\<close> handlers have one): in the
  initial world, where nobody is connected, it appends a build owned by the absent
  session, advances the counter and broadcasts \<open>buildPlaced\<close>, while \<open>move\<close> for the same
  session leaves the world alone.
\<close>

theorem placeBuild_without_player:
  "map_of (players world0) ''ghost'' = None
   \<and> on_placeBuild ''ghost''
        \<lparr>d_type = ''wall'', d_x = Num 0, d_y = Num 0, d_z = Num 0, d_rotY = None\<rparr> world0
     = (\<lparr>players = [],
         builds = [\<lparr>bid = 1, ownerId = ''ghost'', btype = ''wall'', b_x = Num 0, b_y = Num 0,
                    b_z = Num 0, rotY = Num 0\<rparr>],
         nextBuildId = 2\<rparr>,
        [(ToAll, BuildPlaced \<lparr>bid = 1, ownerId = ''ghost'', btype = ''wall'', b_x = Num 0,
                              b_y = Num 0, b_z = Num 0, rotY = Num 0\<rparr>)])
   \<and> on_move ''ghost'' \<lparr>m_x = Num 0, m_y = Num 0, m_z = Num 0, m_rotationY = Num 0\<rparr> world0
     = (world0, [])"
  by (simp add: on_placeBuild_def on_move_def world0_def clamp_Num Let_def)

subsection \<open>Disconnecting\<close>

lemma delete_filter: "AList.delete k ps = filter (\<lambda>e. fst e \<noteq> k) ps"
  by (induction ps) auto

text \<open>
  Claim C6. The disconnect handler of session \<open>sid\<close> removes the player keyed by \<open>sid\<close>
  and the builds owned by \<open>sid\<close>, and nothing else: every other player is looked up as
  before, the builds that remain are exactly those of other owners, both sequences keep
  their order, and the id counter is untouched.
\<close>

theorem disconnect_frame:
  "on_disconnect sid w = (w', out) \<Longrightarrow>
     players w' = filter (\<lambda>e. fst e \<noteq> sid) (players w)
   \<and> map_of (players w') sid = None
   \<and> (\<forall>k. k \<noteq> sid \<longrightarrow> map_of (players w') k = map_of (players w) k)
   \<and> builds w' = filter (\<lambda>b. ownerId b \<noteq> sid) (builds w)
   \<and> set (builds w') = {b \<in> set (builds w). ownerId b \<noteq> sid}
   \<and> subseq (builds w') (builds w)
   \<and> subseq (players w') (players w)
   \<and> nextBuildId w' = nextBuildId w
   \<and> out = [(ToAll, PlayerLeft sid)]"
proof -
  assume a: "on_disconnect sid w = (w', out)"
  have p: "players w' = AList.delete sid (players w)"
    and b: "builds w' = filter (\<lambda>b. ownerId b \<noteq> sid) (builds w)"
    and n: "nextBuildId w' = nextBuildId w"
    and out: "out = [(ToAll, PlayerLeft sid)]"
    using a by (auto simp: on_disconnect_def)
  have "map_of (players w') sid = None"
    by (simp add: p delete_conv')
  moreover have "\<forall>k. k \<noteq> sid \<longrightarrow> map_of (players w') k = map_of (players w) k"
    by (simp add: p delete_conv')
  moreover have "subseq (players w') (players w)"
    by (simp add: p delete_filter)
  moreover have "set (builds w') = {b \<in> set (builds w). ownerId b \<noteq> sid}"
    by (auto simp: b)
  ultimately show ?thesis
    using p b n out by (simp add: delete_filter)
qed

theorem disconnect_frame_witness:
  "on_disconnect ''A''
     \<lparr>players = [(''A'', \<lparr>p_x = Num 0, p_y = Num 1, p_z = Num 0, rotationY = Num 0,
                         health = 100\<rparr>),
                 (''B'', \<lparr>p_x = Num 3, p_y = Num 1, p_z = Num 4, rotationY = Num 0,
                         health = 80\<rparr>)],
      builds = [\<lparr>bid = 1, ownerId = ''A'', btype = ''wall'', b_x = Num 0, b_y = Num 0,
                 b_z = Num 0, rotY = Num 0\<rparr>,
                \<lparr>bid = 2, ownerId = ''B'', btype = ''ramp'', b_x = Num 1, b_y = Num 0,
                 b_z = Num 0, rotY = Num 0\<rparr>,
                \<lparr>bid = 3, ownerId = ''A'', btype = ''roof'', b_x = Num 2, b_y = Num 0,
                 b_z = Num 0, rotY = Num 0\<rparr>,
                \<lparr>bid = 4, ownerId = ''B'', btype = ''floor'', b_x = Num 3, b_y = Num 0,
                 b_z = Num 0, rotY = Num 0\<rparr>],
      nextBuildId = 5\<rparr>
   = (\<lparr>players = [(''B'', \<lparr>p_x = Num 3, p_y = Num 1, p_z = Num 4, rotationY = Num 0,
                           health = 80\<rparr>)],
       builds = [\<lparr>bid = 2, ownerId = ''B'', btype = ''ramp'', b_x = Num 1, b_y = Num 0,
                  b_z = Num 0, rotY = Num 0\<rparr>,
                 \<lparr>bid = 4, ownerId = ''B'', btype = ''floor'', b_x = Num 3, b_y = Num 0,
                  b_z = Num 0, rotY = Num 0\<rparr>],
       nextBuildId = 5\<rparr>,
      [(ToAll, PlayerLeft ''A'')])"
proof -
  let ?pB = "\<lparr>p_x = Num 3, p_y = Num 1, p_z = Num 4, rotationY = Num 0, health = 80\<rparr>"
  let ?b2 = "\<lparr>bid = 2, ownerId = ''B'', btype = ''ramp'', b_x = Num 1, b_y = Num 0,
                 b_z = Num 0, rotY = Num 0\<rparr>"
  let ?b4 = "\<lparr>bid = 4, ownerId = ''B'', btype = ''floor'', b_x = Num 3, b_y = Num 0,
                 b_z = Num 0, rotY = Num 0\<rparr>"
  let ?w = "\<lparr>players = [(''A'', \<lparr>p_x = Num 0, p_y = Num 1, p_z = Num 0, rotationY = Num 0,
                         health = 100\<rparr>), (''B'', ?pB)],
      builds = [\<lparr>bid = 1, ownerId = ''A'', btype = ''wall'', b_x = Num 0, b_y = Num 0,
                 b_z = Num 0, rotY = Num 0\<rparr>, ?b2,
                \<lparr>bid = 3, ownerId = ''A'', btype = ''roof'', b_x = Num 2, b_y = Num 0,
                 b_z = Num 0, rotY = Num 0\<rparr>, ?b4],
      nextBuildId = 5\<rparr>"
  obtain w' out where h: "on_disconnect ''A'' ?w = (w', out)"
    by (cases "on_disconnect ''A'' ?w")
  from disconnect_frame [OF h]
  have f: "players w' = [(''B'', ?pB)]" "builds w' = [?b2, ?b4]"
    "nextBuildId w' = 5" "out = [(ToAll, PlayerLeft ''A'')]"
    by simp_all
  have "w' = \<lparr>players = [(''B'', ?pB)], builds = [?b2, ?b4], nextBuildId = 5\<rparr>"
    using f by (cases w') simp
  with h f show ?thesis by simp
qed

subsection \<open>Damage and respawn\<close>

lemma damage_above:
  "map_of (players w) v = Some p \<Longrightarrow> 20 < health p \<Longrightarrow>
   damage v r1 r2 w =
     Inr (w\<lparr>players := AList.update v (p\<lparr>health := health p - 20\<rparr>) (players w)\<rparr>,
          [(ToAll, PlayerHit v (health p - 20))])"
  by (simp add: damage_def Let_def)

lemma damage_respawn:
  "map_of (players w) v = Some p \<Longrightarrow> health p \<le> 20 \<Longrightarrow>
   damage v r1 r2 w =
     Inr (w\<lparr>players := AList.update v
             (p\<lparr>p_x := js_mul (js_sub (Num r1) (Num 0.5)) (Num 30), p_y := Num 1,
                p_z := js_mul (js_sub (Num r2) (Num 0.5)) (Num 30), health := 100\<rparr>)
             (players w)\<rparr>,
          [(ToSession v, Respawn (js_mul (js_sub (Num r1) (Num 0.5)) (Num 30)) (Num 1)
                                 (js_mul (js_sub (Num r2) (Num 0.5)) (Num 30))),
           (ToAll, PlayerHit v 100)])"
  by (simp add: damage_def Let_def)

lemma stored_after_update:
  "stored_health (w\<lparr>players := AList.update v p (players w)\<rparr>) v = Some (health p)"
  by (simp add: stored_health_def update_conv')

lemma five_hits_sequence:
  assumes "map_of (players w0) v = Some p" and "health p = 100"
  shows "\<exists>w1 w2 w3 w4 w5.
      damage v a1 b1 w0 = Inr (w1, [(ToAll, PlayerHit v 80)]) \<and> stored_health w1 v = Some 80
    \<and> damage v a2 b2 w1 = Inr (w2, [(ToAll, PlayerHit v 60)]) \<and> stored_health w2 v = Some 60
    \<and> damage v a3 b3 w2 = Inr (w3, [(ToAll, PlayerHit v 40)]) \<and> stored_health w3 v = Some 40
    \<and> damage v a4 b4 w3 = Inr (w4, [(ToAll, PlayerHit v 20)]) \<and> stored_health w4 v = Some 20
    \<and> damage v a5 b5 w4 =
        Inr (w5, [(ToSession v, Respawn (js_mul (js_sub (Num a5) (Num 0.5)) (Num 30)) (Num 1)
                                        (js_mul (js_sub (Num b5) (Num 0.5)) (Num 30))),
                  (ToAll, PlayerHit v 100)])
    \<and> stored_health w5 v = Some 100"
proof -
  define p1 where "p1 = p\<lparr>health := health p - 20\<rparr>"
  define w1 where "w1 = w0\<lparr>players := AList.update v p1 (players w0)\<rparr>"
  define p2 where "p2 = p1\<lparr>health := health p1 - 20\<rparr>"
  define w2 where "w2 = w1\<lparr>players := AList.update v p2 (players w1)\<rparr>"
  define p3 where "p3 = p2\<lparr>health := health p2 - 20\<rparr>"
  define w3 where "w3 = w2\<lparr>players := AList.update v p3 (players w2)\<rparr>"
  define p4 where "p4 = p3\<lparr>health := health p3 - 20\<rparr>"
  define w4 where "w4 = w3\<lparr>players := AList.update v p4 (players w3)\<rparr>"
  define p5 where "p5 = p4\<lparr>p_x := js_mul (js_sub (Num a5) (Num 0.5)) (Num 30), p_y := Num 1,
                            p_z := js_mul (js_sub (Num b5) (Num 0.5)) (Num 30), health := 100\<rparr>"
  define w5 where "w5 = w4\<lparr>players := AList.update v p5 (players w4)\<rparr>"
  have h1: "health p1 = 80" and h2: "health p2 = 60" and h3: "health p3 = 40"
    and h4: "health p4 = 20" and h5: "health p5 = 100"
    using assms(2) by (simp_all add: p1_def p2_def p3_def p4_def p5_def)
  have l1: "map_of (players w1) v = Some p1" by (simp add: w1_def update_conv')
  have l2: "map_of (players w2) v = Some p2" by (simp add: w2_def update_conv')
  have l3: "map_of (players w3) v = Some p3" by (simp add: w3_def update_conv')
  have l4: "map_of (players w4) v = Some p4" by (simp add: w4_def update_conv')
  have d1: "damage v a1 b1 w0 = Inr (w1, [(ToAll, PlayerHit v 80)])"
    using damage_above [OF assms(1), of a1 b1] assms(2) by (simp add: w1_def p1_def)
  have d2: "damage v a2 b2 w1 = Inr (w2, [(ToAll, PlayerHit v 60)])"
    using damage_above [OF l1, of a2 b2] h1 by (simp add: w2_def p2_def)
  have d3: "damage v a3 b3 w2 = Inr (w3, [(ToAll, PlayerHit v 40)])"
    using damage_above [OF l2, of a3 b3] h2 by (simp add: w3_def p3_def)
  have d4: "damage v a4 b4 w3 = Inr (w4, [(ToAll, PlayerHit v 20)])"
    using damage_above [OF l3, of a4 b4] h3 by (simp add: w4_def p4_def)
  have d5: "damage v a5 b5 w4 =
        Inr (w5, [(ToSession v, Respawn (js_mul (js_sub (Num a5) (Num 0.5)) (Num 30)) (Num 1)
                                        (js_mul (js_sub (Num b5) (Num 0.5)) (Num 30))),
                  (ToAll, PlayerHit v 100)])"
    using damage_respawn [OF l4, of a5 b5] h4 by (simp add: w5_def p5_def)
  have s: "stored_health w1 v = Some 80" "stored_health w2 v = Some 60"
    "stored_health w3 v = Some 40" "stored_health w4 v = Some 20" "stored_health w5 v = Some 100"
    using h1 h2 h3 h4 h5
    by (simp_all add: w1_def w2_def w3_def w4_def w5_def stored_after_update)
  show ?thesis using d1 d2 d3 d4 d5 s by blast
qed

lemma damage_positive:
  assumes "damage v r1 r2 w = Inr (w', out)"
  shows "\<exists>h>0. stored_health w' v = Some h
           \<and> (\<forall>t k n. (t, PlayerHit k n) \<in> set out \<longrightarrow> k = v \<and> n = h)"
proof (cases "map_of (players w) v")
  case None
  with assms show ?thesis by (simp add: damage_def)
next
  case (Some p)
  show ?thesis
  proof (cases "20 < health p")
    case True
    from damage_above [OF Some True, of r1 r2] assms True show ?thesis
      by (auto simp: stored_after_update)
  next
    case False
    then have "health p \<le> 20" by simp
    from damage_respawn [OF Some this, of r1 r2] assms show ?thesis
      by (auto simp: stored_after_update)
  qed
qed

text \<open>
  Claim C1. Five applications of the damage block to a player that starts at health 100
  emit \<open>playerHit\<close> with 80, 60, 40, 20 and 100, in this order; only the fifth one emits
  \<open>respawn\<close>, and after each application the stored health is the value just emitted, so
  neither a recipient of the events nor a reader of a snapshot sees a value below 20.
  In every world, whatever the health before, the damage block leaves a positive health
  stored and announces that same value: a result that is not positive is replaced by 100
  before the handler emits anything.
\<close>

theorem five_hits:
  assumes "map_of (players w0) v = Some p" and "health p = 100"
  shows "(\<exists>w1 w2 w3 w4 w5.
      damage v a1 b1 w0 = Inr (w1, [(ToAll, PlayerHit v 80)]) \<and> stored_health w1 v = Some 80
    \<and> damage v a2 b2 w1 = Inr (w2, [(ToAll, PlayerHit v 60)]) \<and> stored_health w2 v = Some 60
    \<and> damage v a3 b3 w2 = Inr (w3, [(ToAll, PlayerHit v 40)]) \<and> stored_health w3 v = Some 40
    \<and> damage v a4 b4 w3 = Inr (w4, [(ToAll, PlayerHit v 20)]) \<and> stored_health w4 v = Some 20
    \<and> damage v a5 b5 w4 =
        Inr (w5, [(ToSession v, Respawn (js_mul (js_sub (Num a5) (Num 0.5)) (Num 30)) (Num 1)
                                        (js_mul (js_sub (Num b5) (Num 0.5)) (Num 30))),
                  (ToAll, PlayerHit v 100)])
    \<and> stored_health w5 v = Some 100)
  \<and> (\<forall>w r1 r2 w' out. damage v r1 r2 w = Inr (w', out) \<longrightarrow>
        (\<exists>h>0. stored_health w' v = Some h
           \<and> (\<forall>t k n. (t, PlayerHit k n) \<in> set out \<longrightarrow> k = v \<and> n = h)))"
  using five_hits_sequence [OF assms] damage_positive by blast

theorem five_hits_witness:
  "\<exists>w1 w2 w3 w4 w5.
      damage ''B'' (1/2) (1/2)
        \<lparr>players = [(''A'', \<lparr>p_x = Num 0, p_y = Num 1, p_z = Num 0, rotationY = Num 0,
                            health = 100\<rparr>),
                    (''B'', \<lparr>p_x = Num 3, p_y = Num 1, p_z = Num 4, rotationY = Num 0,
                            health = 100\<rparr>)],
         builds = [], nextBuildId = 1\<rparr>
        = Inr (w1, [(ToAll, PlayerHit ''B'' 80)]) \<and> stored_health w1 ''B'' = Some 80
    \<and> damage ''B'' (1/2) (1/2) w1 = Inr (w2, [(ToAll, PlayerHit ''B'' 60)])
    \<and> stored_health w2 ''B'' = Some 60
    \<and> damage ''B'' (1/2) (1/2) w2 = Inr (w3, [(ToAll, PlayerHit ''B'' 40)])
    \<and> stored_health w3 ''B'' = Some 40
    \<and> damage ''B'' (1/2) (1/2) w3 = Inr (w4, [(ToAll, PlayerHit ''B'' 20)])
    \<and> stored_health w4 ''B'' = Some 20
    \<and> damage ''B'' (3/4) (1/4) w4 =
        Inr (w5, [(ToSession ''B'', Respawn (Num (15/2)) (Num 1) (Num (- (15/2)))),
                  (ToAll, PlayerHit ''B'' 100)])
    \<and> stored_health w5 ''B'' = Some 100"
proof -
  let ?pB = "\<lparr>p_x = Num 3, p_y = Num 1, p_z = Num 4, rotationY = Num 0, health = 100\<rparr>"
  let ?w = "\<lparr>players = [(''A'', \<lparr>p_x = Num 0, p_y = Num 1, p_z = Num 0, rotationY = Num 0,
                            health = 100\<rparr>), (''B'', ?pB)],
         builds = [], nextBuildId = 1\<rparr>"
  have h1: "map_of (players ?w) ''B'' = Some ?pB" by simp
  have h2: "health ?pB = 100" by simp
  from five_hits [OF h1 h2, of "1/2" "1/2" "1/2" "1/2" "1/2" "1/2" "1/2" "1/2" "3/4" "1/4"]
  show ?thesis by (simp add: js_sub_def)
qed

subsection \<open>Signs under the arithmetic of doubles\<close>

lemma nn_round: "0 \<le> x \<Longrightarrow> not_negative (round64 x)"
  using round64_sign(2,3) [of x] by (cases "round64 x") auto

lemma np_round: "x \<le> 0 \<Longrightarrow> not_positive (round64 x)"
  using round64_sign(4,5) [of x] by (cases "round64 x") auto

lemma nn_add: "not_negative a \<Longrightarrow> not_negative b \<Longrightarrow> not_negative (js_add a b)"
  by (cases a; cases b) (simp_all add: nn_round)

lemma np_add: "not_positive a \<Longrightarrow> not_positive b \<Longrightarrow> not_positive (js_add a b)"
  by (cases a; cases b) (simp_all add: np_round)

lemma nn_mul: "not_negative a \<Longrightarrow> not_negative b \<Longrightarrow> not_negative (js_mul a b)"
  by (cases a; cases b) (simp_all add: nn_round)

lemma nn_mul_self: "not_negative (js_mul a a)"
  by (cases a) (simp_all add: nn_round)

lemma np_neg: "not_negative a \<Longrightarrow> not_positive (js_neg a)"
  by (cases a) simp_all

lemma nn_sqrt: "not_negative (js_sqrt d)"
  by (cases d) (simp_all add: nn_round)

lemma np_div: "not_positive n \<Longrightarrow> not_negative d \<Longrightarrow> not_positive (js_div n d)"
  by (cases n; cases d) (auto simp: np_round divide_le_0_iff)

lemma np_not_above: "not_positive t \<Longrightarrow> \<not> js_lt (Num 0) t"
  by (cases t) simp_all

lemma le_zero_nn: "js_le (Num 0) b \<Longrightarrow> not_negative b"
  by (cases b) simp_all

lemma quad_a_nn: "not_negative (quad_a ry)"
  by (simp add: quad_a_def nn_add nn_mul_self)

lemma zn_mul: "zero_or_nan a \<Longrightarrow> zero_or_nan (js_mul a b)" "zero_or_nan a \<Longrightarrow> zero_or_nan (js_mul b a)"
  by (cases a; cases b; simp)+

lemma zn_add: "zero_or_nan a \<Longrightarrow> zero_or_nan b \<Longrightarrow> zero_or_nan (js_add a b)"
  by (cases a; cases b) simp_all

lemma zn_neg: "zero_or_nan a \<Longrightarrow> zero_or_nan (js_neg a)"
  by (cases a) simp_all

lemma zn_sub: "zero_or_nan a \<Longrightarrow> zero_or_nan b \<Longrightarrow> zero_or_nan (js_sub a b)"
  by (simp add: js_sub_def zn_add zn_neg)

lemma zn_sqrt: "zero_or_nan a \<Longrightarrow> zero_or_nan (js_sqrt a)"
  by (cases a) simp_all

lemma zn_div_zero: "zero_or_nan n \<Longrightarrow> js_div n (Num 0) = NaN"
  by (cases n) simp_all

subsection \<open>Hit resolution\<close>

lemma scan_step_unfold:
  "scan_step sid ry (h, c) (i, pl) =
     (if i = sid then (h, c)
      else if js_lt (discriminant ry pl) (Num 0) then (h, c)
      else if js_lt (Num 0) (smaller_root ry pl) \<and> js_lt (smaller_root ry pl) c
           then (Some i, smaller_root ry pl)
           else (h, c))"
  by (simp add: scan_step_def Let_def quad_a_def quad_b_def quad_c_def discriminant_def
      smaller_root_def)

lemma hit_root:
  assumes "is_hit sid ry e"
  shows "smaller_root ry (snd e) = Num (root_value ry (snd e))" and "0 < root_value ry (snd e)"
  using assms by (cases "smaller_root ry (snd e)"; simp add: is_hit_def root_value_def)+

lemma div_not_nan: "js_div n d \<noteq> NaN \<Longrightarrow> n \<noteq> NaN"
  by (cases n) simp_all

lemma add_not_nan: "js_add a b \<noteq> NaN \<Longrightarrow> b \<noteq> NaN"
  by (cases a; cases b) simp_all

lemma neg_not_nan: "js_neg a \<noteq> NaN \<Longrightarrow> a \<noteq> NaN"
  by (cases a) simp_all

lemma sqrt_not_nan: "js_sqrt d \<noteq> NaN \<Longrightarrow> d \<noteq> NaN"
  by (cases d) simp_all

lemma hit_disc:
  assumes "is_hit sid ry e"
  shows "js_le (Num 0) (discriminant ry (snd e))"
proof -
  from hit_root(1) [OF assms] have "smaller_root ry (snd e) \<noteq> NaN" by simp
  then have "js_sub (js_neg (quad_b ry (snd e))) (js_sqrt (discriminant ry (snd e))) \<noteq> NaN"
    unfolding smaller_root_def by (rule div_not_nan)
  then have "js_neg (js_sqrt (discriminant ry (snd e))) \<noteq> NaN"
    unfolding js_sub_def by (rule add_not_nan)
  then have "js_sqrt (discriminant ry (snd e)) \<noteq> NaN" by (rule neg_not_nan)
  then have n: "discriminant ry (snd e) \<noteq> NaN" by (rule sqrt_not_nan)
  from assms have "\<not> js_lt (discriminant ry (snd e)) (Num 0)" by (simp add: is_hit_def)
  with n show ?thesis by (cases "discriminant ry (snd e)") simp_all
qed

lemma is_hit_iff:
  "is_hit sid ry e =
     (fst e \<noteq> sid \<and> js_le (Num 0) (discriminant ry (snd e))
      \<and> (\<exists>t>0. smaller_root ry (snd e) = Num t))"
proof
  assume h: "is_hit sid ry e"
  from h have "fst e \<noteq> sid" by (simp add: is_hit_def)
  with hit_disc [OF h] hit_root [OF h] show
    "fst e \<noteq> sid \<and> js_le (Num 0) (discriminant ry (snd e))
      \<and> (\<exists>t>0. smaller_root ry (snd e) = Num t)" by blast
next
  assume a: "fst e \<noteq> sid \<and> js_le (Num 0) (discriminant ry (snd e))
      \<and> (\<exists>t>0. smaller_root ry (snd e) = Num t)"
  then have "\<not> js_lt (discriminant ry (snd e)) (Num 0)"
    by (cases "discriminant ry (snd e)") simp_all
  with a show "is_hit sid ry e" by (auto simp: is_hit_def)
qed

lemma scan_step_char:
  "scan_step sid ry (h, c) (i, pl) =
     (if is_hit sid ry (i, pl) \<and> js_lt (Num (root_value ry pl)) c
      then (Some i, Num (root_value ry pl)) else (h, c))"
  by (cases "smaller_root ry pl"; cases c)
     (auto simp: scan_step_unfold is_hit_def root_value_def)

lemma scan_Nil: "scan sid ry [] = (None, Infinity)"
  by (simp add: scan_def)

lemma scan_snoc: "scan sid ry (ps @ [e]) = scan_step sid ry (scan sid ry ps) e"
  by (simp add: scan_def)

lemma scan_inv:
  "(scan sid ry ps = (None, Infinity) \<and> (\<forall>e\<in>set ps. \<not> is_hit sid ry e))
   \<or> (\<exists>i<length ps.
         scan sid ry ps = (Some (fst (ps ! i)), Num (root_value ry (snd (ps ! i))))
       \<and> is_hit sid ry (ps ! i)
       \<and> (\<forall>j<length ps. is_hit sid ry (ps ! j) \<longrightarrow>
             root_value ry (snd (ps ! i)) \<le> root_value ry (snd (ps ! j)))
       \<and> (\<forall>j<i. is_hit sid ry (ps ! j) \<longrightarrow>
             root_value ry (snd (ps ! i)) < root_value ry (snd (ps ! j))))"
  (is "?none ps \<or> ?some ps")
proof (induction ps rule: rev_induct)
  case Nil
  show ?case by (simp add: scan_Nil)
next
  case (snoc e ps)
  obtain k pl where e: "e = (k, pl)" by (cases e)
  let ?t = "root_value ry pl"
  from snoc show ?case
  proof
    assume n: "?none ps"
    show ?thesis
    proof (cases "is_hit sid ry e")
      case True
      have s: "scan sid ry (ps @ [e]) = (Some k, Num ?t)"
        using n True by (simp add: scan_snoc e scan_step_char)
      have "?some (ps @ [e])"
      proof (intro exI [of _ "length ps"] conjI allI impI)
        show "length ps < length (ps @ [e])" by simp
        show "scan sid ry (ps @ [e]) =
          (Some (fst ((ps @ [e]) ! length ps)), Num (root_value ry (snd ((ps @ [e]) ! length ps))))"
          using s by (simp add: e)
        show "is_hit sid ry ((ps @ [e]) ! length ps)" using True by simp
      next
        fix j assume j: "j < length (ps @ [e])" and hj: "is_hit sid ry ((ps @ [e]) ! j)"
        have "j = length ps"
        proof (rule ccontr)
          assume "j \<noteq> length ps"
          with j have jl: "j < length ps" by simp
          with hj have "is_hit sid ry (ps ! j)" by (simp add: nth_append)
          moreover have "ps ! j \<in> set ps" using jl by simp
          ultimately show False using n by blast
        qed
        then show "root_value ry (snd ((ps @ [e]) ! length ps))
                   \<le> root_value ry (snd ((ps @ [e]) ! j))" by simp
      next
        fix j assume j: "j < length ps" and hj: "is_hit sid ry ((ps @ [e]) ! j)"
        from j hj have "is_hit sid ry (ps ! j)" by (simp add: nth_append)
        moreover have "ps ! j \<in> set ps" using j by simp
        ultimately have False using n by blast
        then show "root_value ry (snd ((ps @ [e]) ! length ps))
                   < root_value ry (snd ((ps @ [e]) ! j))" ..
      qed
      then show ?thesis ..
    next
      case False
      then have "?none (ps @ [e])"
        using n by (simp add: scan_snoc e scan_step_char)
      then show ?thesis ..
    qed
  next
    assume "?some ps"
    then obtain i where i: "i < length ps"
      and s: "scan sid ry ps = (Some (fst (ps ! i)), Num (root_value ry (snd (ps ! i))))"
      and hi: "is_hit sid ry (ps ! i)"
      and mn: "\<forall>j<length ps. is_hit sid ry (ps ! j) \<longrightarrow>
             root_value ry (snd (ps ! i)) \<le> root_value ry (snd (ps ! j))"
      and fs: "\<forall>j<i. is_hit sid ry (ps ! j) \<longrightarrow>
             root_value ry (snd (ps ! i)) < root_value ry (snd (ps ! j))"
      by blast
    let ?u = "root_value ry (snd (ps ! i))"
    show ?thesis
    proof (cases "is_hit sid ry e \<and> ?t < ?u")
      case True
      have sc: "scan sid ry (ps @ [e]) = (Some k, Num ?t)"
        using True s by (simp add: scan_snoc e scan_step_char)
      have "?some (ps @ [e])"
      proof (intro exI [of _ "length ps"] conjI allI impI)
        show "length ps < length (ps @ [e])" by simp
        show "scan sid ry (ps @ [e]) =
          (Some (fst ((ps @ [e]) ! length ps)), Num (root_value ry (snd ((ps @ [e]) ! length ps))))"
          using sc by (simp add: e)
        show "is_hit sid ry ((ps @ [e]) ! length ps)" using True by simp
      next
        fix j assume j: "j < length (ps @ [e])" and hj: "is_hit sid ry ((ps @ [e]) ! j)"
        show "root_value ry (snd ((ps @ [e]) ! length ps))
                   \<le> root_value ry (snd ((ps @ [e]) ! j))"
        proof (cases "j = length ps")
          case True
          then show ?thesis by simp
        next
          case False
          with j have jl: "j < length ps" by simp
          with hj have "is_hit sid ry (ps ! j)" by (simp add: nth_append)
          with mn jl have "?u \<le> root_value ry (snd (ps ! j))" by blast
          with True jl show ?thesis by (simp add: nth_append e)
        qed
      next
        fix j assume j: "j < length ps" and hj: "is_hit sid ry ((ps @ [e]) ! j)"
        from j hj have "is_hit sid ry (ps ! j)" by (simp add: nth_append)
        with mn j have "?u \<le> root_value ry (snd (ps ! j))" by blast
        with True j show "root_value ry (snd ((ps @ [e]) ! length ps))
                   < root_value ry (snd ((ps @ [e]) ! j))"
          by (simp add: nth_append e)
      qed
      then show ?thesis ..
    next
      case False
      have sc: "scan sid ry (ps @ [e]) = scan sid ry ps"
        using False s by (auto simp: scan_snoc e scan_step_char)
      have "?some (ps @ [e])"
      proof (intro exI [of _ i] conjI allI impI)
        show "i < length (ps @ [e])" using i by simp
        show "scan sid ry (ps @ [e]) =
          (Some (fst ((ps @ [e]) ! i)), Num (root_value ry (snd ((ps @ [e]) ! i))))"
          using sc s i by (simp add: nth_append)
        show "is_hit sid ry ((ps @ [e]) ! i)" using hi i by (simp add: nth_append)
      next
        fix j assume j: "j < length (ps @ [e])" and hj: "is_hit sid ry ((ps @ [e]) ! j)"
        show "root_value ry (snd ((ps @ [e]) ! i)) \<le> root_value ry (snd ((ps @ [e]) ! j))"
        proof (cases "j = length ps")
          case True
          with hj have "is_hit sid ry e" by simp
          with False have "?u \<le> ?t" by simp
          with True i show ?thesis by (simp add: nth_append e)
        next
          case F: False
          with j have jl: "j < length ps" by simp
          with hj have "is_hit sid ry (ps ! j)" by (simp add: nth_append)
          with mn jl have "?u \<le> root_value ry (snd (ps ! j))" by blast
          with i jl show ?thesis by (simp add: nth_append)
        qed
      next
        fix j assume j: "j < i" and hj: "is_hit sid ry ((ps @ [e]) ! j)"
        from j i have jl: "j < length ps" by simp
        with hj have "is_hit sid ry (ps ! j)" by (simp add: nth_append)
        with fs j have "?u < root_value ry (snd (ps ! j))" by blast
        with i jl show "root_value ry (snd ((ps @ [e]) ! i)) < root_value ry (snd ((ps @ [e]) ! j))"
          by (simp add: nth_append)
      qed
      then show ?thesis ..
    qed
  qed
qed

lemma resolveHit_None_iff:
  "(resolveHit sid ry ps = None) = (\<forall>e\<in>set ps. \<not> is_hit sid ry e)"
proof -
  from scan_inv [of sid ry ps] show ?thesis
  proof
    assume "scan sid ry ps = (None, Infinity) \<and> (\<forall>e\<in>set ps. \<not> is_hit sid ry e)"
    then show ?thesis by (simp add: resolveHit_def)
  next
    assume "\<exists>i<length ps.
         scan sid ry ps = (Some (fst (ps ! i)), Num (root_value ry (snd (ps ! i))))
       \<and> is_hit sid ry (ps ! i)
       \<and> (\<forall>j<length ps. is_hit sid ry (ps ! j) \<longrightarrow>
             root_value ry (snd (ps ! i)) \<le> root_value ry (snd (ps ! j)))
       \<and> (\<forall>j<i. is_hit sid ry (ps ! j) \<longrightarrow>
             root_value ry (snd (ps ! i)) < root_value ry (snd (ps ! j)))"
    then obtain i where i: "i < length ps"
      and s: "scan sid ry ps = (Some (fst (ps ! i)), Num (root_value ry (snd (ps ! i))))"
      and h: "is_hit sid ry (ps ! i)" by blast
    from i have "ps ! i \<in> set ps" by simp
    with h have "\<not> (\<forall>e\<in>set ps. \<not> is_hit sid ry e)" by blast
    with s show ?thesis by (simp add: resolveHit_def)
  qed
qed

lemma resolveHit_Some_index:
  assumes "resolveHit sid ry ps = Some v"
  shows "\<exists>i<length ps. fst (ps ! i) = v \<and> is_hit sid ry (ps ! i)
       \<and> (\<forall>j<length ps. is_hit sid ry (ps ! j) \<longrightarrow>
             root_value ry (snd (ps ! i)) \<le> root_value ry (snd (ps ! j)))
       \<and> (\<forall>j<i. is_hit sid ry (ps ! j) \<longrightarrow>
             root_value ry (snd (ps ! i)) < root_value ry (snd (ps ! j)))"
proof -
  from scan_inv [of sid ry ps] show ?thesis
  proof
    assume "scan sid ry ps = (None, Infinity) \<and> (\<forall>e\<in>set ps. \<not> is_hit sid ry e)"
    with assms show ?thesis by (simp add: resolveHit_def)
  next
    assume "\<exists>i<length ps.
         scan sid ry ps = (Some (fst (ps ! i)), Num (root_value ry (snd (ps ! i))))
       \<and> is_hit sid ry (ps ! i)
       \<and> (\<forall>j<length ps. is_hit sid ry (ps ! j) \<longrightarrow>
             root_value ry (snd (ps ! i)) \<le> root_value ry (snd (ps ! j)))
       \<and> (\<forall>j<i. is_hit sid ry (ps ! j) \<longrightarrow>
             root_value ry (snd (ps ! i)) < root_value ry (snd (ps ! j)))"
    then obtain i where i: "i < length ps"
      and s: "scan sid ry ps = (Some (fst (ps ! i)), Num (root_value ry (snd (ps ! i))))"
      and r: "is_hit sid ry (ps ! i)"
        "\<forall>j<length ps. is_hit sid ry (ps ! j) \<longrightarrow>
             root_value ry (snd (ps ! i)) \<le> root_value ry (snd (ps ! j))"
        "\<forall>j<i. is_hit sid ry (ps ! j) \<longrightarrow>
             root_value ry (snd (ps ! i)) < root_value ry (snd (ps ! j))"
      by blast
    from s assms have "fst (ps ! i) = v" by (simp add: resolveHit_def)
    with i r show ?thesis by blast
  qed
qed

lemma resolveHit_Some_member:
  assumes "resolveHit sid ry ps = Some v"
  shows "\<exists>pl. (v, pl) \<in> set ps \<and> is_hit sid ry (v, pl)
          \<and> (\<forall>e\<in>set ps. is_hit sid ry e \<longrightarrow> root_value ry pl \<le> root_value ry (snd e))"
proof -
  from resolveHit_Some_index [OF assms] obtain i where i: "i < length ps"
    and v: "fst (ps ! i) = v" and h: "is_hit sid ry (ps ! i)"
    and mn: "\<forall>j<length ps. is_hit sid ry (ps ! j) \<longrightarrow>
             root_value ry (snd (ps ! i)) \<le> root_value ry (snd (ps ! j))"
    by blast
  have e: "ps ! i = (v, snd (ps ! i))" using v by (cases "ps ! i") simp
  have m: "(v, snd (ps ! i)) \<in> set ps" using i e by (metis nth_mem)
  have "\<forall>e\<in>set ps. is_hit sid ry e \<longrightarrow> root_value ry (snd (ps ! i)) \<le> root_value ry (snd e)"
  proof (intro ballI impI)
    fix e' assume "e' \<in> set ps" and he: "is_hit sid ry e'"
    then obtain j where "j < length ps" and "ps ! j = e'" by (auto simp: in_set_conv_nth)
    with mn he show "root_value ry (snd (ps ! i)) \<le> root_value ry (snd e')" by auto
  qed
  with m h e show ?thesis by metis
qed

lemma away_no_hit:
  assumes "js_le (Num 0) (quad_b ry pl)"
  shows "\<not> is_hit sid ry (k, pl)"
proof -
  have b: "not_positive (js_neg (quad_b ry pl))"
    by (rule np_neg [OF le_zero_nn [OF assms]])
  have "not_positive (js_neg (js_sqrt (discriminant ry pl)))"
    by (rule np_neg [OF nn_sqrt])
  with b have n: "not_positive (js_sub (js_neg (quad_b ry pl)) (js_sqrt (discriminant ry pl)))"
    unfolding js_sub_def by (rule np_add)
  have "not_negative (js_mul (Num 2) (quad_a ry))"
    by (rule nn_mul [OF _ quad_a_nn]) simp
  with n have "not_positive (smaller_root ry pl)"
    unfolding smaller_root_def by (rule np_div)
  then have "\<not> js_lt (Num 0) (smaller_root ry pl)" by (rule np_not_above)
  then show ?thesis by (simp add: is_hit_def)
qed

text \<open>
  Claim C4, amended. When the loop returns a victim, this is a candidate other than the
  shooter whose discriminant, as the loop computes it, is not below zero and whose smaller
  root \<open>(- b - sqrt disc) / (2 * a)\<close> is a finite number above zero, and no hit candidate
  has a smaller root. It returns no victim exactly when no candidate is hit in this
  sense. A single candidate that is hit is returned, and a ray that points away from
  every candidate (\<open>b \<ge> 0\<close>) returns no victim.
\<close>

theorem resolveHit_nearest:
  "(resolveHit sid ry ps = Some v \<longrightarrow>
      (\<exists>pl t. (v, pl) \<in> set ps \<and> v \<noteq> sid \<and> js_le (Num 0) (discriminant ry pl)
           \<and> smaller_root ry pl = Num t \<and> 0 < t
           \<and> (\<forall>e\<in>set ps. is_hit sid ry e \<longrightarrow> t \<le> root_value ry (snd e))))
   \<and> ((resolveHit sid ry ps = None) = (\<forall>e\<in>set ps. \<not> is_hit sid ry e))
   \<and> (\<forall>e. is_hit sid ry e =
          (fst e \<noteq> sid \<and> js_le (Num 0) (discriminant ry (snd e))
           \<and> (\<exists>t>0. smaller_root ry (snd e) = Num t \<and> root_value ry (snd e) = t)))
   \<and> ((w, q) \<in> set ps \<and> is_hit sid ry (w, q) \<and> (\<forall>e\<in>set ps. fst e \<noteq> sid \<longrightarrow> e = (w, q))
        \<longrightarrow> resolveHit sid ry ps = Some w)
   \<and> ((\<forall>e\<in>set ps. fst e \<noteq> sid \<longrightarrow> js_le (Num 0) (quad_b ry (snd e)))
        \<longrightarrow> resolveHit sid ry ps = None)"
proof (intro conjI impI)
  assume "resolveHit sid ry ps = Some v"
  from resolveHit_Some_member [OF this] obtain pl where m: "(v, pl) \<in> set ps"
    and h: "is_hit sid ry (v, pl)"
    and mn: "\<forall>e\<in>set ps. is_hit sid ry e \<longrightarrow> root_value ry pl \<le> root_value ry (snd e)"
    by blast
  from h have "v \<noteq> sid" by (simp add: is_hit_def)
  with m mn hit_disc [OF h] hit_root [OF h]
  show "\<exists>pl t. (v, pl) \<in> set ps \<and> v \<noteq> sid \<and> js_le (Num 0) (discriminant ry pl)
           \<and> smaller_root ry pl = Num t \<and> 0 < t
           \<and> (\<forall>e\<in>set ps. is_hit sid ry e \<longrightarrow> t \<le> root_value ry (snd e))"
    by (intro exI [of _ pl] exI [of _ "root_value ry pl"]) simp
next
  show "(resolveHit sid ry ps = None) = (\<forall>e\<in>set ps. \<not> is_hit sid ry e)"
    by (rule resolveHit_None_iff)
next
  show "\<forall>e. is_hit sid ry e =
          (fst e \<noteq> sid \<and> js_le (Num 0) (discriminant ry (snd e))
           \<and> (\<exists>t>0. smaller_root ry (snd e) = Num t \<and> root_value ry (snd e) = t))"
  proof
    fix e
    show "is_hit sid ry e =
          (fst e \<noteq> sid \<and> js_le (Num 0) (discriminant ry (snd e))
           \<and> (\<exists>t>0. smaller_root ry (snd e) = Num t \<and> root_value ry (snd e) = t))"
      using hit_root [of sid ry e] is_hit_iff [of sid ry e] by auto
  qed
next
  assume a: "(w, q) \<in> set ps \<and> is_hit sid ry (w, q) \<and> (\<forall>e\<in>set ps. fst e \<noteq> sid \<longrightarrow> e = (w, q))"
  then have "resolveHit sid ry ps \<noteq> None"
    using resolveHit_None_iff [of sid ry ps] by blast
  then obtain u where u: "resolveHit sid ry ps = Some u" by blast
  from resolveHit_Some_member [OF u] obtain pl where
    m: "(u, pl) \<in> set ps" and h: "is_hit sid ry (u, pl)" by blast
  from h have "u \<noteq> sid" by (simp add: is_hit_def)
  with a m have "(u, pl) = (w, q)" by fastforce
  with u show "resolveHit sid ry ps = Some w" by simp
next
  assume a: "\<forall>e\<in>set ps. fst e \<noteq> sid \<longrightarrow> js_le (Num 0) (quad_b ry (snd e))"
  have "\<forall>e\<in>set ps. \<not> is_hit sid ry e"
  proof
    fix e assume e: "e \<in> set ps"
    show "\<not> is_hit sid ry e"
    proof (cases "fst e = sid")
      case True
      then show ?thesis by (simp add: is_hit_def)
    next
      case False
      with a e have "js_le (Num 0) (quad_b ry (snd e))" by blast
      from away_no_hit [OF this, of sid "fst e"] show ?thesis by simp
    qed
  qed
  then show "resolveHit sid ry ps = None" by (simp add: resolveHit_None_iff)
qed

text \<open>
  Claim C10, amended. Among the candidates that are hit, that is, whose smaller root is a
  finite number above zero, the victim is the first entry, in the order of the iteration,
  among those whose root is the smallest: every hit candidate before it has a strictly
  larger root. Conversely the entry with this property is the one returned, so for a
  fixed list of candidates the result is determined.
\<close>

theorem resolveHit_tie_break:
  "(resolveHit sid ry ps = Some v \<longrightarrow>
      (\<exists>i<length ps. fst (ps ! i) = v \<and> is_hit sid ry (ps ! i)
         \<and> (\<forall>j<length ps. is_hit sid ry (ps ! j) \<longrightarrow>
               root_value ry (snd (ps ! i)) \<le> root_value ry (snd (ps ! j)))
         \<and> (\<forall>j<i. is_hit sid ry (ps ! j) \<longrightarrow>
               root_value ry (snd (ps ! i)) < root_value ry (snd (ps ! j)))))
   \<and> (i < length ps \<and> is_hit sid ry (ps ! i)
        \<and> (\<forall>j<length ps. is_hit sid ry (ps ! j) \<longrightarrow>
               root_value ry (snd (ps ! i)) \<le> root_value ry (snd (ps ! j)))
        \<and> (\<forall>j<i. is_hit sid ry (ps ! j) \<longrightarrow>
               root_value ry (snd (ps ! i)) < root_value ry (snd (ps ! j)))
      \<longrightarrow> resolveHit sid ry ps = Some (fst (ps ! i)))
   \<and> (\<forall>e. is_hit sid ry e =
          (fst e \<noteq> sid \<and> js_le (Num 0) (discriminant ry (snd e))
           \<and> smaller_root ry (snd e) = Num (root_value ry (snd e))
           \<and> 0 < root_value ry (snd e)))"
proof (intro conjI impI)
  assume "resolveHit sid ry ps = Some v"
  from resolveHit_Some_index [OF this]
  show "\<exists>i<length ps. fst (ps ! i) = v \<and> is_hit sid ry (ps ! i)
         \<and> (\<forall>j<length ps. is_hit sid ry (ps ! j) \<longrightarrow>
               root_value ry (snd (ps ! i)) \<le> root_value ry (snd (ps ! j)))
         \<and> (\<forall>j<i. is_hit sid ry (ps ! j) \<longrightarrow>
               root_value ry (snd (ps ! i)) < root_value ry (snd (ps ! j)))" .
next
  assume a: "i < length ps \<and> is_hit sid ry (ps ! i)
        \<and> (\<forall>j<length ps. is_hit sid ry (ps ! j) \<longrightarrow>
               root_value ry (snd (ps ! i)) \<le> root_value ry (snd (ps ! j)))
        \<and> (\<forall>j<i. is_hit sid ry (ps ! j) \<longrightarrow>
               root_value ry (snd (ps ! i)) < root_value ry (snd (ps ! j)))"
  then have "ps ! i \<in> set ps" and "is_hit sid ry (ps ! i)" by simp_all
  then have "resolveHit sid ry ps \<noteq> None"
    using resolveHit_None_iff [of sid ry ps] by blast
  then obtain u where u: "resolveHit sid ry ps = Some u" by blast
  from resolveHit_Some_index [OF u] obtain k where k: "k < length ps"
    and ku: "fst (ps ! k) = u" and kh: "is_hit sid ry (ps ! k)"
    and kmn: "\<forall>j<length ps. is_hit sid ry (ps ! j) \<longrightarrow>
               root_value ry (snd (ps ! k)) \<le> root_value ry (snd (ps ! j))"
    and kfs: "\<forall>j<k. is_hit sid ry (ps ! j) \<longrightarrow>
               root_value ry (snd (ps ! k)) < root_value ry (snd (ps ! j))"
    by blast
  have le1: "root_value ry (snd (ps ! k)) \<le> root_value ry (snd (ps ! i))"
    using kmn a by blast
  have le2: "root_value ry (snd (ps ! i)) \<le> root_value ry (snd (ps ! k))"
    using a k kh by blast
  have "k = i"
  proof (rule ccontr)
    assume "k \<noteq> i"
    then consider "k < i" | "i < k" by linarith
    then show False
    proof cases
      case 1
      with a kh have "root_value ry (snd (ps ! i)) < root_value ry (snd (ps ! k))" by blast
      with le1 show False by simp
    next
      case 2
      with kfs a have "root_value ry (snd (ps ! k)) < root_value ry (snd (ps ! i))" by blast
      with le2 show False by simp
    qed
  qed
  with u ku show "resolveHit sid ry ps = Some (fst (ps ! i))" by simp
next
  show "\<forall>e. is_hit sid ry e =
          (fst e \<noteq> sid \<and> js_le (Num 0) (discriminant ry (snd e))
           \<and> smaller_root ry (snd e) = Num (root_value ry (snd e))
           \<and> 0 < root_value ry (snd e))"
  proof
    fix e
    show "is_hit sid ry e =
          (fst e \<noteq> sid \<and> js_le (Num 0) (discriminant ry (snd e))
           \<and> smaller_root ry (snd e) = Num (root_value ry (snd e))
           \<and> 0 < root_value ry (snd e))"
      using hit_root [of sid ry e] is_hit_iff [of sid ry e] by auto
  qed
qed


text \<open>
  Claim C8. A shot whose direction is the zero vector hits nobody: the loop returns no
  victim, and the handler returns normally with the world unchanged and nothing emitted.
\<close>

theorem zero_direction_no_hit:
  "direction data = \<lparr>v_x = Num 0, v_y = Num 0, v_z = Num 0\<rparr> \<Longrightarrow>
     on_shoot sid data r1 r2 w = Inr (w, [])
   \<and> resolveHit sid \<lparr>ox = v_x (origin data), oy = v_y (origin data), oz = v_z (origin data),
                     dx = Num 0, dy = Num 0, dz = Num 0\<rparr> (players w) = None"
proof -
  assume d: "direction data = \<lparr>v_x = Num 0, v_y = Num 0, v_z = Num 0\<rparr>"
  let ?ry = "\<lparr>ox = v_x (origin data), oy = v_y (origin data), oz = v_z (origin data),
              dx = Num 0, dy = Num 0, dz = Num 0\<rparr>"
  have a: "quad_a ?ry = Num 0" by (simp add: quad_a_def)
  have "\<not> is_hit sid ?ry e" for e
  proof -
    have z: "zero_or_nan (Num 0)" by simp
    have b: "zero_or_nan (quad_b ?ry (snd e))"
      unfolding quad_b_def by (intro zn_mul(2) zn_add) (simp_all add: zn_mul(2))
    have ac: "zero_or_nan (js_mul (js_mul (Num 4) (quad_a ?ry)) (quad_c ?ry (snd e)))"
      by (rule zn_mul(1)) (simp add: a)
    have bb: "zero_or_nan (js_mul (quad_b ?ry (snd e)) (quad_b ?ry (snd e)))"
      by (rule zn_mul(1) [OF b])
    have dz: "zero_or_nan (discriminant ?ry (snd e))"
      unfolding discriminant_def by (rule zn_sub [OF bb ac])
    have "zero_or_nan (js_sub (js_neg (quad_b ?ry (snd e))) (js_sqrt (discriminant ?ry (snd e))))"
      by (rule zn_sub [OF zn_neg [OF b] zn_sqrt [OF dz]])
    then have "smaller_root ?ry (snd e) = NaN"
      unfolding smaller_root_def by (simp add: a zn_div_zero)
    then show ?thesis by (simp add: is_hit_def)
  qed
  then have n: "resolveHit sid ?ry (players w) = None" by (simp add: resolveHit_None_iff)
  then have "on_shoot sid data r1 r2 w = Inr (w, [])"
    using d by (simp add: on_shoot_def split: option.split)
  with n show ?thesis by simp
qed

subsection \<open>Hit resolution at concrete rays\<close>

lemma tiny_powi: "tiny = 2 powi (- 600)"
  by (simp add: tiny_def power_int_minus field_simps)

lemma tiny_pos: "0 < tiny"
  by (simp add: tiny_def)

lemma tiny_scaled:
  assumes "\<bar>m\<bar> < 2 ^ 53"
  shows "round64 (of_int m * tiny) = Num (of_int m * tiny)"
  using round64_exact [of "of_int m * tiny" m "- 600"] assms by (simp add: tiny_powi)

lemma tiny_sq:
  assumes "\<bar>m\<bar> < 2 ^ 53"
  shows "round64 (of_int m * (tiny * tiny)) = Num 0"
proof (rule round64_tiny)
  have sq: "tiny * tiny = 2 powi (- 1200)"
    using power_int_add [of "2::real" "- 600" "- 600"] by (simp add: tiny_powi)
  have "\<bar>of_int m * (tiny * tiny)\<bar> = of_int \<bar>m\<bar> * 2 powi (- 1200)"
    by (simp add: sq abs_mult)
  also have "\<dots> < 2 ^ 53 * 2 powi (- 1200)"
  proof -
    have "(of_int \<bar>m\<bar> :: real) < 2 ^ 53"
      using assms by (metis of_int_less_iff of_int_numeral of_int_power)
    then show ?thesis by simp
  qed
  also have "\<dots> = 2 powi (53 + (- 1200))"
    using power_int_add [of "2::real" 53 "- 1200"] by simp
  also have "\<dots> \<le> 2 powi (- 1075)" by (intro power_int_increasing) simp_all
  finally show "\<bar>of_int m * (tiny * tiny)\<bar> < 2 powi (- 1075)" .
qed

lemma tiny_evals:
  "round64 (tiny * tiny) = Num 0"
  "round64 (100 * (tiny * tiny)) = Num 0"
  "round64 (- (5 * tiny)) = Num (- (5 * tiny))"
  "round64 (- (7 * tiny)) = Num (- (7 * tiny))"
  "round64 (- (10 * tiny)) = Num (- (10 * tiny))"
  "round64 (- (14 * tiny)) = Num (- (14 * tiny))"
  "round64 (10 * tiny) = Num (10 * tiny)"
  "round64 (14 * tiny) = Num (14 * tiny)"
  "round64 (196 * (tiny * tiny)) = Num 0"
  using tiny_sq [of 1] tiny_sq [of 100] tiny_scaled [of "- 5"] tiny_scaled [of "- 7"]
    tiny_scaled [of "- 10"] tiny_scaled [of "- 14"] tiny_scaled [of 10] tiny_scaled [of 14]
    tiny_sq [of 196]
  by simp_all

lemma quads_at_B:
  "quad_a \<lparr>ox = Num 0, oy = Num (1/2), oz = Num 0, dx = Num 0, dy = Num 0, dz = Num tiny\<rparr>
     = Num 0"
  "quad_b \<lparr>ox = Num 0, oy = Num (1/2), oz = Num 0, dx = Num 0, dy = Num 0, dz = Num tiny\<rparr>
     \<lparr>p_x = Num 0, p_y = Num 0, p_z = Num 5, rotationY = Num 0, health = 100\<rparr>
     = Num (- (10 * tiny))"
  "quad_c \<lparr>ox = Num 0, oy = Num (1/2), oz = Num 0, dx = Num 0, dy = Num 0, dz = Num tiny\<rparr>
     \<lparr>p_x = Num 0, p_y = Num 0, p_z = Num 5, rotationY = Num 0, health = 100\<rparr>
     = Num (99/4)"
  by (simp_all add: quad_a_def quad_b_def quad_c_def js_sub_def tiny_evals)

lemma quads_at_C:
  "quad_b \<lparr>ox = Num 0, oy = Num (1/2), oz = Num 0, dx = Num 0, dy = Num 0, dz = Num tiny\<rparr>
     \<lparr>p_x = Num 0, p_y = Num 0, p_z = Num 7, rotationY = Num 0, health = 100\<rparr>
     = Num (- (14 * tiny))"
  "quad_c \<lparr>ox = Num 0, oy = Num (1/2), oz = Num 0, dx = Num 0, dy = Num 0, dz = Num tiny\<rparr>
     \<lparr>p_x = Num 0, p_y = Num 0, p_z = Num 7, rotationY = Num 0, health = 100\<rparr>
     = Num (195/4)"
  by (simp_all add: quad_b_def quad_c_def js_sub_def tiny_evals)

lemma roots_at_B:
  "discriminant
     \<lparr>ox = Num 0, oy = Num (1/2), oz = Num 0, dx = Num 0, dy = Num 0, dz = Num tiny\<rparr>
     \<lparr>p_x = Num 0, p_y = Num 0, p_z = Num 5, rotationY = Num 0, health = 100\<rparr> = Num 0"
  "smaller_root
     \<lparr>ox = Num 0, oy = Num (1/2), oz = Num 0, dx = Num 0, dy = Num 0, dz = Num tiny\<rparr>
     \<lparr>p_x = Num 0, p_y = Num 0, p_z = Num 5, rotationY = Num 0, health = 100\<rparr> = Infinity"
proof -
  let ?R = "\<lparr>ox = Num 0, oy = Num (1/2), oz = Num 0, dx = Num 0, dy = Num 0, dz = Num tiny\<rparr>"
  let ?B = "\<lparr>p_x = Num 0, p_y = Num 0, p_z = Num 5, rotationY = Num 0, health = 100\<rparr>"
  show d: "discriminant ?R ?B = Num 0"
    by (simp add: discriminant_def quads_at_B js_sub_def tiny_evals)
  show "smaller_root ?R ?B = Infinity"
    using tiny_pos by (simp add: smaller_root_def d quads_at_B js_sub_def tiny_evals)
qed

lemma roots_at_C:
  "discriminant
     \<lparr>ox = Num 0, oy = Num (1/2), oz = Num 0, dx = Num 0, dy = Num 0, dz = Num tiny\<rparr>
     \<lparr>p_x = Num 0, p_y = Num 0, p_z = Num 7, rotationY = Num 0, health = 100\<rparr> = Num 0"
  "smaller_root
     \<lparr>ox = Num 0, oy = Num (1/2), oz = Num 0, dx = Num 0, dy = Num 0, dz = Num tiny\<rparr>
     \<lparr>p_x = Num 0, p_y = Num 0, p_z = Num 7, rotationY = Num 0, health = 100\<rparr> = Infinity"
proof -
  let ?R = "\<lparr>ox = Num 0, oy = Num (1/2), oz = Num 0, dx = Num 0, dy = Num 0, dz = Num tiny\<rparr>"
  let ?C = "\<lparr>p_x = Num 0, p_y = Num 0, p_z = Num 7, rotationY = Num 0, health = 100\<rparr>"
  show d: "discriminant ?R ?C = Num 0"
    by (simp add: discriminant_def quads_at_B(1) quads_at_C js_sub_def tiny_evals)
  show "smaller_root ?R ?C = Infinity"
    using tiny_pos
    by (simp add: smaller_root_def d quads_at_B(1) quads_at_C js_sub_def tiny_evals)
qed

text \<open>
  Claim C4 says that a single candidate whose discriminant is not negative and whose
  smaller root is above zero is returned. A direction of length \<open>2^-600\<close> through the
  centre of the only candidate has \<open>a = 0\<close> by underflow, the discriminant 0 and the root
  \<open>Infinity\<close>, which is above zero and not below the initial \<open>closest\<close>: no victim.
\<close>

theorem underflow_no_victim:
  "discriminant
     \<lparr>ox = Num 0, oy = Num (1/2), oz = Num 0, dx = Num 0, dy = Num 0, dz = Num (1 / 2 ^ 600)\<rparr>
     \<lparr>p_x = Num 0, p_y = Num 0, p_z = Num 5, rotationY = Num 0, health = 100\<rparr> = Num 0
   \<and> smaller_root
     \<lparr>ox = Num 0, oy = Num (1/2), oz = Num 0, dx = Num 0, dy = Num 0, dz = Num (1 / 2 ^ 600)\<rparr>
     \<lparr>p_x = Num 0, p_y = Num 0, p_z = Num 5, rotationY = Num 0, health = 100\<rparr> = Infinity
   \<and> js_lt (Num 0) Infinity
   \<and> resolveHit ''A''
     \<lparr>ox = Num 0, oy = Num (1/2), oz = Num 0, dx = Num 0, dy = Num 0, dz = Num (1 / 2 ^ 600)\<rparr>
     [(''A'', \<lparr>p_x = Num 0, p_y = Num 0, p_z = Num 0, rotationY = Num 0, health = 100\<rparr>),
      (''B'', \<lparr>p_x = Num 0, p_y = Num 0, p_z = Num 5, rotationY = Num 0, health = 100\<rparr>)]
     = None"
  unfolding tiny_def [symmetric]
  by (simp add: roots_at_B resolveHit_def scan_def scan_step_unfold)

text \<open>
  Claim C10 says that of two candidates with the same smallest root above zero the
  earlier one is selected. With the direction of length \<open>2^-600\<close> both candidates on the
  ray have the root \<open>Infinity\<close>, and neither is selected.
\<close>

theorem tied_at_infinity_no_victim:
  "smaller_root
     \<lparr>ox = Num 0, oy = Num (1/2), oz = Num 0, dx = Num 0, dy = Num 0, dz = Num (1 / 2 ^ 600)\<rparr>
     \<lparr>p_x = Num 0, p_y = Num 0, p_z = Num 5, rotationY = Num 0, health = 100\<rparr> = Infinity
   \<and> smaller_root
     \<lparr>ox = Num 0, oy = Num (1/2), oz = Num 0, dx = Num 0, dy = Num 0, dz = Num (1 / 2 ^ 600)\<rparr>
     \<lparr>p_x = Num 0, p_y = Num 0, p_z = Num 7, rotationY = Num 0, health = 100\<rparr> = Infinity
   \<and> js_lt (Num 0) Infinity
   \<and> resolveHit ''A''
     \<lparr>ox = Num 0, oy = Num (1/2), oz = Num 0, dx = Num 0, dy = Num 0, dz = Num (1 / 2 ^ 600)\<rparr>
     [(''A'', \<lparr>p_x = Num 0, p_y = Num 0, p_z = Num 0, rotationY = Num 0, health = 100\<rparr>),
      (''B'', \<lparr>p_x = Num 0, p_y = Num 0, p_z = Num 5, rotationY = Num 0, health = 100\<rparr>),
      (''C'', \<lparr>p_x = Num 0, p_y = Num 0, p_z = Num 7, rotationY = Num 0, health = 100\<rparr>)]
     = None"
  unfolding tiny_def [symmetric]
  by (simp add: roots_at_B roots_at_C resolveHit_def scan_def scan_step_unfold)

theorem resolveHit_nearest_witness:
  "resolveHit ''A'' \<lparr>ox = Num 0, oy = Num (1/2), oz = Num 0, dx = Num 0, dy = Num 0, dz = Num 1\<rparr>
     [(''A'', \<lparr>p_x = Num 0, p_y = Num 0, p_z = Num 0, rotationY = Num 0, health = 100\<rparr>),
      (''B'', \<lparr>p_x = Num 0, p_y = Num 0, p_z = Num 5, rotationY = Num 0, health = 100\<rparr>)]
     = Some ''B''
   \<and> resolveHit ''A''
     \<lparr>ox = Num 0, oy = Num (1/2), oz = Num 0, dx = Num 0, dy = Num 0, dz = Num (- 1)\<rparr>
     [(''A'', \<lparr>p_x = Num 0, p_y = Num 0, p_z = Num 0, rotationY = Num 0, health = 100\<rparr>),
      (''B'', \<lparr>p_x = Num 0, p_y = Num 0, p_z = Num 5, rotationY = Num 0, health = 100\<rparr>)]
     = None"
proof -
  let ?pA = "\<lparr>p_x = Num 0, p_y = Num 0, p_z = Num 0, rotationY = Num 0, health = 100\<rparr>"
  let ?pB = "\<lparr>p_x = Num 0, p_y = Num 0, p_z = Num 5, rotationY = Num 0, health = 100\<rparr>"
  let ?ps = "[(''A'', ?pA), (''B'', ?pB)]"
  let ?to = "\<lparr>ox = Num 0, oy = Num (1/2), oz = Num 0, dx = Num 0, dy = Num 0, dz = Num 1\<rparr>"
  let ?away = "\<lparr>ox = Num 0, oy = Num (1/2), oz = Num 0, dx = Num 0, dy = Num 0, dz = Num (- 1)\<rparr>"
  have h: "is_hit ''A'' ?to (''B'', ?pB)"
    by (simp add: is_hit_def quad_a_def quad_b_def quad_c_def discriminant_def smaller_root_def
        js_sub_def)
  have s: "\<forall>e\<in>set ?ps. fst e \<noteq> ''A'' \<longrightarrow> e = (''B'', ?pB)" by simp
  have b: "\<forall>e\<in>set ?ps. fst e \<noteq> ''A'' \<longrightarrow> js_le (Num 0) (quad_b ?away (snd e))"
    by (simp add: quad_b_def js_sub_def)
  have "resolveHit ''A'' ?to ?ps = Some ''B''"
    using resolveHit_nearest [of "''A''" ?to ?ps "''B''" "''B''" ?pB] h s by simp
  moreover have "resolveHit ''A'' ?away ?ps = None"
    using resolveHit_nearest [of "''A''" ?away ?ps "''B''" "''B''" ?pB] b by blast
  ultimately show ?thesis by simp
qed

theorem resolveHit_tie_break_witness:
  "resolveHit ''A'' \<lparr>ox = Num 0, oy = Num (1/2), oz = Num 0, dx = Num 0, dy = Num 0, dz = Num 1\<rparr>
     [(''A'', \<lparr>p_x = Num 0, p_y = Num 0, p_z = Num 0, rotationY = Num 0, health = 100\<rparr>),
      (''B'', \<lparr>p_x = Num (1/2), p_y = Num 0, p_z = Num 5, rotationY = Num 0, health = 100\<rparr>),
      (''C'', \<lparr>p_x = Num (- (1/2)), p_y = Num 0, p_z = Num 5, rotationY = Num 0, health = 100\<rparr>)]
     = Some ''B''
   \<and> resolveHit ''A''
     \<lparr>ox = Num 0, oy = Num (1/2), oz = Num 0, dx = Num 0, dy = Num 0, dz = Num 1\<rparr>
     [(''A'', \<lparr>p_x = Num 0, p_y = Num 0, p_z = Num 0, rotationY = Num 0, health = 100\<rparr>),
      (''C'', \<lparr>p_x = Num (- (1/2)), p_y = Num 0, p_z = Num 5, rotationY = Num 0, health = 100\<rparr>),
      (''B'', \<lparr>p_x = Num (1/2), p_y = Num 0, p_z = Num 5, rotationY = Num 0, health = 100\<rparr>)]
     = Some ''C''"
proof -
  let ?pA = "\<lparr>p_x = Num 0, p_y = Num 0, p_z = Num 0, rotationY = Num 0, health = 100\<rparr>"
  let ?pB = "\<lparr>p_x = Num (1/2), p_y = Num 0, p_z = Num 5, rotationY = Num 0, health = 100\<rparr>"
  let ?pC = "\<lparr>p_x = Num (- (1/2)), p_y = Num 0, p_z = Num 5, rotationY = Num 0, health = 100\<rparr>"
  let ?ry = "\<lparr>ox = Num 0, oy = Num (1/2), oz = Num 0, dx = Num 0, dy = Num 0, dz = Num 1\<rparr>"
  have dB: "discriminant ?ry ?pB = Num 0" and dC: "discriminant ?ry ?pC = Num 0"
    by (simp_all add: quad_a_def quad_b_def quad_c_def discriminant_def js_sub_def)
  have sB: "smaller_root ?ry ?pB = Num 5" and sC: "smaller_root ?ry ?pC = Num 5"
    by (simp_all add: smaller_root_def dB dC quad_a_def quad_b_def js_sub_def)
  have tB: "root_value ?ry ?pB = 5" and tC: "root_value ?ry ?pC = 5"
    by (simp_all add: root_value_def sB sC)
  have hA: "\<not> is_hit ''A'' ?ry (''A'', ?pA)" by (simp add: is_hit_def)
  have hB: "is_hit ''A'' ?ry (''B'', ?pB)" and hC: "is_hit ''A'' ?ry (''C'', ?pC)"
    by (simp_all add: is_hit_def dB dC sB sC)
  let ?bc = "[(''A'', ?pA), (''B'', ?pB), (''C'', ?pC)]"
  let ?cb = "[(''A'', ?pA), (''C'', ?pC), (''B'', ?pB)]"
  have three: "j = 0 \<or> j = 1 \<or> j = 2" if "j < 3" for j :: nat
    using that by linarith
  have mn1: "\<forall>j<length ?bc. is_hit ''A'' ?ry (?bc ! j) \<longrightarrow>
               root_value ?ry (snd (?bc ! 1)) \<le> root_value ?ry (snd (?bc ! j))"
  proof (intro allI impI)
    fix j assume "j < length ?bc" and h: "is_hit ''A'' ?ry (?bc ! j)"
    then have "j = 0 \<or> j = 1 \<or> j = 2" using three by simp
    with h hA show "root_value ?ry (snd (?bc ! 1)) \<le> root_value ?ry (snd (?bc ! j))"
      by (auto simp: tB tC)
  qed
  have fs1: "\<forall>j<1. is_hit ''A'' ?ry (?bc ! j) \<longrightarrow>
               root_value ?ry (snd (?bc ! 1)) < root_value ?ry (snd (?bc ! j))"
    using hA by simp
  have mn2: "\<forall>j<length ?cb. is_hit ''A'' ?ry (?cb ! j) \<longrightarrow>
               root_value ?ry (snd (?cb ! 1)) \<le> root_value ?ry (snd (?cb ! j))"
  proof (intro allI impI)
    fix j assume "j < length ?cb" and h: "is_hit ''A'' ?ry (?cb ! j)"
    then have "j = 0 \<or> j = 1 \<or> j = 2" using three by simp
    with h hA show "root_value ?ry (snd (?cb ! 1)) \<le> root_value ?ry (snd (?cb ! j))"
      by (auto simp: tB tC)
  qed
  have fs2: "\<forall>j<1. is_hit ''A'' ?ry (?cb ! j) \<longrightarrow>
               root_value ?ry (snd (?cb ! 1)) < root_value ?ry (snd (?cb ! j))"
    using hA by simp
  have "resolveHit ''A'' ?ry ?bc = Some (fst (?bc ! 1))"
    using resolveHit_tie_break [of "''A''" ?ry ?bc "''B''" 1] hB mn1 fs1 by simp
  moreover have "resolveHit ''A'' ?ry ?cb = Some (fst (?cb ! 1))"
    using resolveHit_tie_break [of "''A''" ?ry ?cb "''C''" 1] hC mn2 fs2 by simp
  ultimately show ?thesis by simp
qed

theorem zero_direction_no_hit_witness:
  "on_shoot ''A''
     \<lparr>origin = \<lparr>v_x = Num 0, v_y = Num (1/2), v_z = Num 0\<rparr>,
      direction = \<lparr>v_x = Num 0, v_y = Num 0, v_z = Num 0\<rparr>\<rparr>
     (1/2) (1/2)
     \<lparr>players = [(''A'', \<lparr>p_x = Num 0, p_y = Num 0, p_z = Num 0, rotationY = Num 0,
                         health = 100\<rparr>),
                 (''B'', \<lparr>p_x = Num 0, p_y = Num 0, p_z = Num 5, rotationY = Num 0,
                         health = 100\<rparr>)],
      builds = [], nextBuildId = 1\<rparr>
   = Inr (\<lparr>players = [(''A'', \<lparr>p_x = Num 0, p_y = Num 0, p_z = Num 0, rotationY = Num 0,
                               health = 100\<rparr>),
                       (''B'', \<lparr>p_x = Num 0, p_y = Num 0, p_z = Num 5, rotationY = Num 0,
                               health = 100\<rparr>)],
           builds = [], nextBuildId = 1\<rparr>, [])"
  using zero_direction_no_hit [of
      "\<lparr>origin = \<lparr>v_x = Num 0, v_y = Num (1/2), v_z = Num 0\<rparr>,
        direction = \<lparr>v_x = Num 0, v_y = Num 0, v_z = Num 0\<rparr>\<rparr>"
      "''A''" "1/2" "1/2"
      "\<lparr>players = [(''A'', \<lparr>p_x = Num 0, p_y = Num 0, p_z = Num 0, rotationY = Num 0,
                         health = 100\<rparr>),
                 (''B'', \<lparr>p_x = Num 0, p_y = Num 0, p_z = Num 5, rotationY = Num 0,
                         health = 100\<rparr>)],
      builds = [], nextBuildId = 1\<rparr>"]
  by simp

subsection \<open>Runs: no fault, and the bounds of every stored player\<close>

lemma in_arena_iff: "in_arena v = (\<exists>r. v = Num r \<and> - 50 \<le> r \<and> r \<le> 50)"
  by (cases v) (auto simp: in_arena_def)

lemma in_spawn_range_iff: "in_spawn_range v = (\<exists>r. v = Num r \<and> - 15 \<le> r \<and> r \<le> 15)"
  by (cases v) (auto simp: in_spawn_range_def)

lemma list_all_update:
  "list_all P ps \<Longrightarrow> P (k, v) \<Longrightarrow> list_all P (AList.update k v ps)"
  by (induction ps) auto

lemma list_all_delete:
  "list_all P ps \<Longrightarrow> list_all P (AList.delete k ps)"
  by (induction ps) auto

lemma lookup_ok:
  assumes "world_inv w" and "map_of (players w) k = Some p"
  shows "player_ok p"
proof -
  from assms(2) have "(k, p) \<in> set (players w)" by (rule map_of_SomeD)
  with assms(1) have "player_ok (snd (k, p))"
    unfolding world_inv_def list_all_iff by blast
  then show ?thesis by simp
qed

text \<open>The spawn coordinate \<open>(Math.random() - 0.5) * 30\<close>, rounded twice, stays within
  \<open>[-15, 15]\<close>: both bounds, and \<open>1/2\<close> before them, are doubles.\<close>

lemma spawn_coord:
  assumes "is_random r"
  shows "\<exists>s. js_mul (js_sub (Num r) (Num (1/2))) (Num 30) = Num s \<and> - 15 \<le> s \<and> s \<le> 15"
proof -
  have "\<bar>r + - (1/2)\<bar> \<le> 1/2"
    using assms unfolding is_random_def by linarith
  then have "\<bar>r + - (1/2)\<bar> \<le> of_int 1 * 2 powi (- 1)"
    by (simp add: power_int_minus)
  from round64_bounded [OF this] obtain u where
    u: "round64 (r + - (1/2)) = Num u" "\<bar>u\<bar> \<le> of_int 1 * 2 powi (- 1)" by auto
  from u(2) have "\<bar>u\<bar> \<le> 1/2" by (simp add: power_int_minus)
  then have "\<bar>u * 30\<bar> \<le> 15" by (simp add: abs_mult)
  then have "\<bar>u * 30\<bar> \<le> of_int 15 * 2 powi 0" by simp
  from round64_bounded [OF this] obtain s where
    s: "round64 (u * 30) = Num s" "\<bar>s\<bar> \<le> of_int 15 * 2 powi 0" by auto
  from s(2) have "- 15 \<le> s \<and> s \<le> 15" by (simp add: abs_le_iff)
  with u(1) s(1) show ?thesis by (simp add: js_sub_def)
qed

lemma spawn_player:
  assumes "is_random r1" "is_random r2"
  shows "\<exists>sx sz. - 15 \<le> sx \<and> sx \<le> 15 \<and> - 15 \<le> sz \<and> sz \<le> 15
           \<and> js_mul (js_sub (Num r1) (Num (1/2))) (Num 30) = Num sx
           \<and> js_mul (js_sub (Num r2) (Num (1/2))) (Num 30) = Num sz"
  using spawn_coord [OF assms(1)] spawn_coord [OF assms(2)] by blast

lemma connection_inv:
  assumes "is_random r1" "is_random r2" "world_inv w"
  shows "world_inv (fst (on_connection sid r1 r2 w))"
    and "list_all spawn_message_ok (snd (on_connection sid r1 r2 w))"
proof -
  from spawn_player [OF assms(1,2)] obtain sx sz where
    b: "- 15 \<le> sx" "sx \<le> 15" "- 15 \<le> sz" "sz \<le> 15"
    and x: "js_mul (js_sub (Num r1) (Num (1/2))) (Num 30) = Num sx"
    and z: "js_mul (js_sub (Num r2) (Num (1/2))) (Num 30) = Num sz" by blast
  have ok: "player_ok \<lparr>p_x = Num sx, p_y = Num 1, p_z = Num sz, rotationY = Num 0,
                        health = 100\<rparr>"
    using b by (simp add: player_ok_def in_arena_iff)
  with assms(3) show "world_inv (fst (on_connection sid r1 r2 w))"
    by (simp add: on_connection_def Let_def world_inv_def list_all_update x z)
  show "list_all spawn_message_ok (snd (on_connection sid r1 r2 w))"
    using b by (simp add: on_connection_def Let_def x z in_spawn_range_iff)
qed

lemma move_inv:
  assumes "world_inv w" and "m_x data \<noteq> NaN" and "m_y data \<noteq> NaN" and "m_z data \<noteq> NaN"
  shows "world_inv (fst (on_move sid data w))"
    and "snd (on_move sid data w) = []"
proof -
  show "snd (on_move sid data w) = []"
    by (simp add: on_move_def split: option.split)
  show "world_inv (fst (on_move sid data w))"
  proof (cases "map_of (players w) sid")
    case None
    with assms(1) show ?thesis by (simp add: on_move_def)
  next
    case (Some p)
    from lookup_ok [OF assms(1) Some] have "player_ok p" .
    then have "player_ok (p\<lparr>p_x := clamp (m_x data), p_y := clamp (m_y data),
                   p_z := clamp (m_z data), rotationY := m_rotationY data\<rparr>)"
      using assms(2-4) by (simp add: player_ok_def clamp_in_arena)
    with assms(1) Some show ?thesis
      by (simp add: on_move_def world_inv_def list_all_update)
  qed
qed

lemma damage_inv:
  assumes "is_random r1" "is_random r2" "world_inv w" "damage v r1 r2 w = Inr (w', out)"
  shows "world_inv w'" and "list_all spawn_message_ok out"
proof -
  from assms(4) obtain p where Some: "map_of (players w) v = Some p"
    by (cases "map_of (players w) v") (simp_all add: damage_def)
  from lookup_ok [OF assms(3) Some] have ok: "player_ok p" .
  from spawn_player [OF assms(1,2)] obtain sx sz where
    b: "- 15 \<le> sx" "sx \<le> 15" "- 15 \<le> sz" "sz \<le> 15"
    and x: "js_mul (js_sub (Num r1) (Num (1/2))) (Num 30) = Num sx"
    and z: "js_mul (js_sub (Num r2) (Num (1/2))) (Num 30) = Num sz" by blast
  have "world_inv w' \<and> list_all spawn_message_ok out"
  proof (cases "20 < health p")
    case True
    from ok True have "player_ok (p\<lparr>health := health p - 20\<rparr>)"
      by (simp add: player_ok_def)
    with damage_above [OF Some True, of r1 r2] assms(3,4) show ?thesis
      by (auto simp: world_inv_def list_all_update)
  next
    case False
    then have le: "health p \<le> 20" by simp
    have "player_ok (p\<lparr>p_x := Num sx, p_y := Num 1, p_z := Num sz, health := 100\<rparr>)"
      using b by (simp add: player_ok_def in_arena_iff)
    with damage_respawn [OF Some le, of r1 r2] assms(3,4) b
    show ?thesis
      by (auto simp: world_inv_def list_all_update x z in_spawn_range_iff)
  qed
  then show "world_inv w'" and "list_all spawn_message_ok out" by simp_all
qed

lemma resolveHit_key:
  assumes "resolveHit sid ry ps = Some v"
  shows "\<exists>p. map_of ps v = Some p"
proof -
  from resolveHit_Some_member [OF assms] obtain pl where "(v, pl) \<in> set ps" by blast
  then have "v \<in> fst ` set ps" by force
  then have "map_of ps v \<noteq> None" by (simp add: map_of_eq_None_iff)
  then show ?thesis by blast
qed

lemma damage_total:
  "map_of (players w) v = Some p \<Longrightarrow> \<exists>w' out. damage v r1 r2 w = Inr (w', out)"
  by (simp add: damage_def Let_def)

lemma on_shoot_cases:
  "on_shoot sid data r1 r2 w = Inr (w, [])
   \<or> (\<exists>v p. map_of (players w) v = Some p \<and> on_shoot sid data r1 r2 w = damage v r1 r2 w)"
proof (cases "map_of (players w) sid")
  case None
  then show ?thesis by (simp add: on_shoot_def)
next
  case (Some shooter)
  let ?ry = "\<lparr>ox = v_x (origin data), oy = v_y (origin data), oz = v_z (origin data),
                    dx = v_x (direction data), dy = v_y (direction data),
                    dz = v_z (direction data)\<rparr>"
  show ?thesis
  proof (cases "resolveHit sid ?ry (players w)")
    case None
    with Some show ?thesis by (simp add: on_shoot_def)
  next
    case h: (Some v)
    from resolveHit_key [OF h] obtain p where "map_of (players w) v = Some p" ..
    with Some h show ?thesis by (auto simp: on_shoot_def)
  qed
qed

lemma step_total: "\<exists>w' out. step c w = Inr (w', out)"
proof (cases c)
  case (Shoot sid data r1 r2)
  from on_shoot_cases [of sid data r1 r2 w] show ?thesis
  proof
    assume "on_shoot sid data r1 r2 w = Inr (w, [])"
    with Shoot show ?thesis by simp
  next
    assume "\<exists>v p. map_of (players w) v = Some p \<and> on_shoot sid data r1 r2 w = damage v r1 r2 w"
    then obtain v p where "map_of (players w) v = Some p"
      and "on_shoot sid data r1 r2 w = damage v r1 r2 w" by blast
    with damage_total [of w v p r1 r2] Shoot show ?thesis by simp
  qed
qed (simp_all add: prod_eq_iff)

lemma run_total: "\<exists>w' out. run cs w = Inr (w', out)"
proof (induction cs arbitrary: w)
  case Nil
  show ?case by simp
next
  case (Cons c cs)
  from step_total [of c w] obtain w1 o1 where s: "step c w = Inr (w1, o1)" by blast
  from Cons [of w1] obtain w2 o2 where "run cs w1 = Inr (w2, o2)" by blast
  with s show ?case by simp
qed

lemma run_Cons_Inr:
  assumes "run (c # cs) w = Inr (w2, out)"
  shows "\<exists>w1 o1 o2. step c w = Inr (w1, o1) \<and> run cs w1 = Inr (w2, o2) \<and> out = o1 @ o2"
  using assms by (auto split: sum.splits prod.splits)

lemma step_inv:
  assumes "wf_command c" "numeric_command c" "world_inv w" "step c w = Inr (w', out)"
  shows "world_inv w' \<and> list_all spawn_message_ok out"
proof (cases c)
  case (Connection sid r1 r2)
  with assms connection_inv [of r1 r2 w sid] show ?thesis by auto
next
  case (Move sid data)
  with assms move_inv [of w data sid] show ?thesis by auto
next
  case (Shoot sid data r1 r2)
  from on_shoot_cases [of sid data r1 r2 w] show ?thesis
  proof
    assume "on_shoot sid data r1 r2 w = Inr (w, [])"
    with Shoot assms show ?thesis by simp
  next
    assume "\<exists>v p. map_of (players w) v = Some p \<and> on_shoot sid data r1 r2 w = damage v r1 r2 w"
    then obtain v where "on_shoot sid data r1 r2 w = damage v r1 r2 w" by blast
    with Shoot assms have "damage v r1 r2 w = Inr (w', out)" and "is_random r1" and "is_random r2"
      by simp_all
    with damage_inv [of r1 r2 w v w' out] assms(3) show ?thesis by simp
  qed
next
  case (PlaceBuild sid data)
  with assms show ?thesis by (auto simp: on_placeBuild_def Let_def world_inv_def)
next
  case (Disconnect sid)
  with assms show ?thesis by (auto simp: on_disconnect_def world_inv_def list_all_delete)
next
  case Tick
  with assms show ?thesis by (auto simp: on_tick_def)
qed

lemma run_inv:
  "list_all wf_command cs \<Longrightarrow> list_all numeric_command cs \<Longrightarrow> world_inv w
   \<Longrightarrow> run cs w = Inr (w', out)
   \<Longrightarrow> world_inv w' \<and> list_all spawn_message_ok out"
proof (induction cs arbitrary: w out)
  case Nil
  then show ?case by simp
next
  case (Cons c cs)
  from run_Cons_Inr [OF Cons.prems(4)] obtain w1 o1 o2 where
    s: "step c w = Inr (w1, o1)" and r: "run cs w1 = Inr (w', o2)" and o: "out = o1 @ o2"
    by blast
  from Cons.prems(1) have c: "wf_command c" and cs: "list_all wf_command cs" by simp_all
  from Cons.prems(2) have n: "numeric_command c" and ns: "list_all numeric_command cs"
    by simp_all
  from step_inv [OF c n Cons.prems(3) s] have 1: "world_inv w1" "list_all spawn_message_ok o1"
    by simp_all
  from Cons.IH [OF cs ns 1(1) r] 1(2) o show ?case by simp
qed

lemma move_stores_clamped:
  "map_of (players w) sid = Some p \<Longrightarrow>
   on_move sid data w =
     (w\<lparr>players := AList.update sid
           (p\<lparr>p_x := clamp (m_x data), p_y := clamp (m_y data), p_z := clamp (m_z data),
              rotationY := m_rotationY data\<rparr>) (players w)\<rparr>, [])"
  by (simp add: on_move_def)

lemma connection_stores_spawn:
  assumes "is_random r1" "is_random r2"
  shows "\<exists>sx sz. - 15 \<le> sx \<and> sx \<le> 15 \<and> - 15 \<le> sz \<and> sz \<le> 15
     \<and> fst (on_connection sid r1 r2 w) =
         w\<lparr>players := AList.update sid
              \<lparr>p_x = Num sx, p_y = Num 1, p_z = Num sz, rotationY = Num 0, health = 100\<rparr>
              (players w)\<rparr>"
proof -
  from spawn_player [OF assms] obtain sx sz where
    b: "- 15 \<le> sx" "sx \<le> 15" "- 15 \<le> sz" "sz \<le> 15"
    and x: "js_mul (js_sub (Num r1) (Num (1/2))) (Num 30) = Num sx"
    and z: "js_mul (js_sub (Num r2) (Num (1/2))) (Num 30) = Num sz" by blast
  have "fst (on_connection sid r1 r2 w) =
         w\<lparr>players := AList.update sid
              \<lparr>p_x = Num sx, p_y = Num 1, p_z = Num sz, rotationY = Num 0, health = 100\<rparr>
              (players w)\<rparr>"
    by (simp add: on_connection_def Let_def x z)
  with b show ?thesis by blast
qed

text \<open>
  Claim C2 says that every stored coordinate lies in \<open>[-50, 50]\<close> in every reachable world.
  A \<open>move\<close> command without \<open>x\<close> leaves \<open>NaN\<close> in the player, since \<open>Math.min\<close> and
  \<open>Math.max\<close> of an absent value are \<open>NaN\<close>, and \<open>NaN\<close> is not in the interval.
\<close>

theorem move_stores_nan:
  "run [Connection ''A'' (1/2) (1/2),
        Move ''A'' \<lparr>m_x = NaN, m_y = Num 1, m_z = Num 2, m_rotationY = Num 0\<rparr>] world0
   = Inr (\<lparr>players = [(''A'', \<lparr>p_x = NaN, p_y = Num 1, p_z = Num 2, rotationY = Num 0,
                               health = 100\<rparr>)],
           builds = [], nextBuildId = 1\<rparr>,
          [(ToSession ''A'', InitState ''A''
              [(''A'', \<lparr>p_x = Num 0, p_y = Num 1, p_z = Num 0, rotationY = Num 0,
                        health = 100\<rparr>)] []),
           (ToOthers ''A'', PlayerJoined ''A''
              \<lparr>p_x = Num 0, p_y = Num 1, p_z = Num 0, rotationY = Num 0, health = 100\<rparr>)])
   \<and> \<not> js_le (Num (- 50)) NaN \<and> \<not> js_le NaN (Num 50) \<and> \<not> in_arena NaN"
  by (simp add: world0_def on_connection_def on_move_def Let_def js_sub_def clamp_special
      clamp_Num in_arena_def)

text \<open>
  Claim C2, amended. Every sequence of handler invocations, started in the initial world,
  with random draws in \<open>[0, 1)\<close> and with \<open>move\<close> commands whose three coordinates are
  numbers, runs without fault and ends in a world where each stored player has all three
  coordinates in \<open>[-50, 50]\<close> and a health in \<open>[0, 100]\<close>; every spawn and respawn position
  that is announced lies in \<open>[-15, 15] \<times> {1} \<times> [-15, 15]\<close>. The move handler stores each
  coordinate clamped, which for a number is \<open>max (-50) (min 50 v)\<close> and for \<open>NaN\<close> is
  \<open>NaN\<close>; the connection handler stores a spawn position of that range with health 100.
\<close>

theorem reachable_bounds:
  "list_all wf_command cs \<Longrightarrow> list_all numeric_command cs \<Longrightarrow>
   (\<exists>w out. run cs world0 = Inr (w, out)
     \<and> (\<forall>e\<in>set (players w).
           in_arena (p_x (snd e)) \<and> in_arena (p_y (snd e)) \<and> in_arena (p_z (snd e))
         \<and> 0 \<le> health (snd e) \<and> health (snd e) \<le> 100)
     \<and> list_all spawn_message_ok out)
   \<and> (\<forall>v. in_arena v = (\<exists>r. v = Num r \<and> - 50 \<le> r \<and> r \<le> 50))
   \<and> (\<forall>v. in_spawn_range v = (\<exists>r. v = Num r \<and> - 15 \<le> r \<and> r \<le> 15))
   \<and> (\<forall>sid data w p. map_of (players w) sid = Some p \<longrightarrow>
         on_move sid data w =
           (w\<lparr>players := AList.update sid
                 (p\<lparr>p_x := clamp (m_x data), p_y := clamp (m_y data),
                    p_z := clamp (m_z data), rotationY := m_rotationY data\<rparr>)
                 (players w)\<rparr>, []))
   \<and> (\<forall>v. clamp (Num v) = Num (max (- 50) (min 50 v)))
   \<and> clamp Infinity = Num 50 \<and> clamp NegInfinity = Num (- 50) \<and> clamp NaN = NaN
   \<and> (\<forall>sid r1 r2 w. is_random r1 \<and> is_random r2 \<longrightarrow>
         (\<exists>sx sz. - 15 \<le> sx \<and> sx \<le> 15 \<and> - 15 \<le> sz \<and> sz \<le> 15
            \<and> fst (on_connection sid r1 r2 w) =
                w\<lparr>players := AList.update sid
                     \<lparr>p_x = Num sx, p_y = Num 1, p_z = Num sz, rotationY = Num 0,
                      health = 100\<rparr> (players w)\<rparr>))"
proof -
  assume wf: "list_all wf_command cs" and nm: "list_all numeric_command cs"
  from run_total [of cs world0] obtain w out where r: "run cs world0 = Inr (w, out)" by blast
  have "world_inv world0" by (simp add: world_inv_def world0_def)
  from run_inv [OF wf nm this r] have "world_inv w" and o: "list_all spawn_message_ok out"
    by simp_all
  then have "\<forall>e\<in>set (players w). player_ok (snd e)"
    by (simp add: world_inv_def list_all_iff)
  with r o have 1: "\<exists>w out. run cs world0 = Inr (w, out)
     \<and> (\<forall>e\<in>set (players w).
           in_arena (p_x (snd e)) \<and> in_arena (p_y (snd e)) \<and> in_arena (p_z (snd e))
         \<and> 0 \<le> health (snd e) \<and> health (snd e) \<le> 100)
     \<and> list_all spawn_message_ok out"
    unfolding player_ok_def by blast
  have 2: "\<forall>sid data w p. map_of (players w) sid = Some p \<longrightarrow>
         on_move sid data w =
           (w\<lparr>players := AList.update sid
                 (p\<lparr>p_x := clamp (m_x data), p_y := clamp (m_y data),
                    p_z := clamp (m_z data), rotationY := m_rotationY data\<rparr>)
                 (players w)\<rparr>, [])"
    by (simp add: move_stores_clamped)
  have 3: "\<forall>sid r1 r2 w. is_random r1 \<and> is_random r2 \<longrightarrow>
         (\<exists>sx sz. - 15 \<le> sx \<and> sx \<le> 15 \<and> - 15 \<le> sz \<and> sz \<le> 15
            \<and> fst (on_connection sid r1 r2 w) =
                w\<lparr>players := AList.update sid
                     \<lparr>p_x = Num sx, p_y = Num 1, p_z = Num sz, rotationY = Num 0,
                      health = 100\<rparr> (players w)\<rparr>)"
    using connection_stores_spawn by blast
  have 4: "\<forall>v. in_arena v = (\<exists>r. v = Num r \<and> - 50 \<le> r \<and> r \<le> 50)"
    by (simp add: in_arena_iff)
  have 5: "\<forall>v. in_spawn_range v = (\<exists>r. v = Num r \<and> - 15 \<le> r \<and> r \<le> 15)"
    by (simp add: in_spawn_range_iff)
  have 6: "\<forall>v. clamp (Num v) = Num (max (- 50) (min 50 v))"
    by (simp add: clamp_Num)
  from 1 2 3 4 5 6 clamp_special show ?thesis by (intro conjI)
qed

theorem reachable_bounds_witness:
  "\<exists>w out.
     run [Connection ''A'' (1/2) (1/2), Connection ''B'' 0 (3/4),
          Move ''A'' \<lparr>m_x = Num 1000, m_y = NegInfinity, m_z = Num 7, m_rotationY = NaN\<rparr>,
          Shoot ''B'' \<lparr>origin = \<lparr>v_x = Num 0, v_y = Num 1, v_z = Num 0\<rparr>,
                      direction = \<lparr>v_x = Num 1, v_y = Num 0, v_z = Num 0\<rparr>\<rparr> (1/3) (2/3),
          Disconnect ''B'', Tick] world0 = Inr (w, out)
     \<and> (\<forall>e\<in>set (players w).
           in_arena (p_x (snd e)) \<and> in_arena (p_y (snd e)) \<and> in_arena (p_z (snd e))
         \<and> 0 \<le> health (snd e) \<and> health (snd e) \<le> 100)
     \<and> list_all spawn_message_ok out"
proof -
  let ?cs = "[Connection ''A'' (1/2) (1/2), Connection ''B'' 0 (3/4),
          Move ''A'' \<lparr>m_x = Num 1000, m_y = NegInfinity, m_z = Num 7, m_rotationY = NaN\<rparr>,
          Shoot ''B'' \<lparr>origin = \<lparr>v_x = Num 0, v_y = Num 1, v_z = Num 0\<rparr>,
                      direction = \<lparr>v_x = Num 1, v_y = Num 0, v_z = Num 0\<rparr>\<rparr> (1/3) (2/3),
          Disconnect ''B'', Tick]"
  have h: "list_all wf_command ?cs" by (simp add: is_random_def)
  have n: "list_all numeric_command ?cs" by simp
  from reachable_bounds [OF h n] show ?thesis by blast
qed

subsection \<open>Runs: build ids\<close>

lemma placed_ids_append: "placed_ids (xs @ ys) = placed_ids xs @ placed_ids ys"
  by (induction xs rule: placed_ids.induct) simp_all

lemma damage_frame:
  assumes "damage v r1 r2 w = Inr (w', out)"
  shows "builds w' = builds w" and "nextBuildId w' = nextBuildId w" and "placed_ids out = []"
proof -
  from assms obtain p where Some: "map_of (players w) v = Some p"
    by (cases "map_of (players w) v") (simp_all add: damage_def)
  have "builds w' = builds w \<and> nextBuildId w' = nextBuildId w \<and> placed_ids out = []"
  proof (cases "20 < health p")
    case True
    from damage_above [OF Some True, of r1 r2] assms show ?thesis by auto
  next
    case False
    then have "health p \<le> 20" by simp
    from damage_respawn [OF Some this, of r1 r2] assms show ?thesis by auto
  qed
  then show "builds w' = builds w" and "nextBuildId w' = nextBuildId w" and "placed_ids out = []"
    by simp_all
qed

lemma on_shoot_frame:
  assumes "on_shoot sid data r1 r2 w = Inr (w', out)"
  shows "builds w' = builds w \<and> nextBuildId w' = nextBuildId w \<and> placed_ids out = []"
proof -
  from on_shoot_cases [of sid data r1 r2 w] show ?thesis
  proof
    assume "on_shoot sid data r1 r2 w = Inr (w, [])"
    with assms show ?thesis by simp
  next
    assume "\<exists>v p. map_of (players w) v = Some p \<and> on_shoot sid data r1 r2 w = damage v r1 r2 w"
    then obtain v where "on_shoot sid data r1 r2 w = damage v r1 r2 w" by blast
    with assms have "damage v r1 r2 w = Inr (w', out)" by simp
    from damage_frame [OF this] show ?thesis by simp
  qed
qed

text \<open>What one step does to the builds and to the counter.\<close>

lemma step_builds:
  assumes "step c w = Inr (w', out)"
  shows "(\<exists>sid data b. c = PlaceBuild sid data \<and> bid b = nextBuildId w \<and> ownerId b = sid
            \<and> btype b = d_type data \<and> builds w' = builds w @ [b]
            \<and> nextBuildId w' = nextBuildId w + 1 \<and> placed_ids out = [nextBuildId w])
       \<or> (nextBuildId w' = nextBuildId w \<and> placed_ids out = []
            \<and> (\<exists>P. builds w' = filter P (builds w)))"
proof (cases c)
  case (Connection sid r1 r2)
  with assms have "builds w' = filter (\<lambda>b. True) (builds w)"
    and "nextBuildId w' = nextBuildId w \<and> placed_ids out = []"
    by (auto simp: on_connection_def Let_def)
  then show ?thesis by blast
next
  case (Move sid data)
  with assms have "builds w' = filter (\<lambda>b. True) (builds w)"
    and "nextBuildId w' = nextBuildId w \<and> placed_ids out = []"
    by (auto simp: on_move_def split: option.splits)
  then show ?thesis by blast
next
  case (Shoot sid data r1 r2)
  with assms on_shoot_frame [of sid data r1 r2 w w' out]
  have "builds w' = filter (\<lambda>b. True) (builds w)"
    and "nextBuildId w' = nextBuildId w \<and> placed_ids out = []"
    by simp_all
  then show ?thesis by blast
next
  case (PlaceBuild sid data)
  with assms show ?thesis by (auto simp: on_placeBuild_def Let_def)
next
  case (Disconnect sid)
  with assms have "builds w' = filter (\<lambda>b. ownerId b \<noteq> sid) (builds w)"
    and "nextBuildId w' = nextBuildId w \<and> placed_ids out = []"
    by (auto simp: on_disconnect_def)
  then show ?thesis by blast
next
  case Tick
  with assms have "builds w' = filter (\<lambda>b. True) (builds w)"
    and "nextBuildId w' = nextBuildId w \<and> placed_ids out = []"
    by (auto simp: on_tick_def)
  then show ?thesis by blast
qed

lemma step_ids:
  assumes "step c w = Inr (w', out)" and "ids_inv w"
  shows "ids_inv w'" and "nextBuildId w \<le> nextBuildId w'"
    and "\<forall>i\<in>set (placed_ids out). nextBuildId w \<le> i \<and> i < nextBuildId w'"
    and "sorted_wrt (<) (placed_ids out)"
    and "set (map bid (builds w')) \<subseteq> set (map bid (builds w)) \<union> set (placed_ids out)"
proof -
  from step_builds [OF assms(1)]
  have "ids_inv w' \<and> nextBuildId w \<le> nextBuildId w'
      \<and> (\<forall>i\<in>set (placed_ids out). nextBuildId w \<le> i \<and> i < nextBuildId w')
      \<and> sorted_wrt (<) (placed_ids out)
      \<and> set (map bid (builds w')) \<subseteq> set (map bid (builds w)) \<union> set (placed_ids out)"
  proof
    assume "\<exists>sid data b. c = PlaceBuild sid data \<and> bid b = nextBuildId w \<and> ownerId b = sid
            \<and> btype b = d_type data \<and> builds w' = builds w @ [b]
            \<and> nextBuildId w' = nextBuildId w + 1 \<and> placed_ids out = [nextBuildId w]"
    then obtain b where b: "bid b = nextBuildId w" "builds w' = builds w @ [b]"
      "nextBuildId w' = nextBuildId w + 1" "placed_ids out = [nextBuildId w]" by blast
    from assms(2) have "\<forall>x\<in>set (builds w). bid x < nextBuildId w"
      and "sorted_wrt (<) (map bid (builds w))"
      by (simp_all add: ids_inv_def list_all_iff)
    with b have "ids_inv w'"
      by (auto simp: ids_inv_def list_all_iff sorted_wrt_append)
    with b show ?thesis by auto
  next
    assume "nextBuildId w' = nextBuildId w \<and> placed_ids out = []
            \<and> (\<exists>P. builds w' = filter P (builds w))"
    then obtain P where p: "nextBuildId w' = nextBuildId w" "placed_ids out = []"
      "builds w' = filter P (builds w)" by blast
    have "sorted_wrt (<) (map bid (filter P (builds w)))"
      using assms(2) by (simp add: ids_inv_def sorted_wrt_map sorted_wrt_filter)
    with p assms(2) have "ids_inv w'"
      by (auto simp: ids_inv_def list_all_iff)
    with p show ?thesis by auto
  qed
  then show "ids_inv w'" and "nextBuildId w \<le> nextBuildId w'"
    and "\<forall>i\<in>set (placed_ids out). nextBuildId w \<le> i \<and> i < nextBuildId w'"
    and "sorted_wrt (<) (placed_ids out)"
    and "set (map bid (builds w')) \<subseteq> set (map bid (builds w)) \<union> set (placed_ids out)"
    by simp_all
qed

lemma run_ids:
  "run cs w = Inr (w', out) \<Longrightarrow> ids_inv w \<Longrightarrow>
     ids_inv w' \<and> nextBuildId w \<le> nextBuildId w'
   \<and> (\<forall>i\<in>set (placed_ids out). nextBuildId w \<le> i \<and> i < nextBuildId w')
   \<and> sorted_wrt (<) (placed_ids out)
   \<and> set (map bid (builds w')) \<subseteq> set (map bid (builds w)) \<union> set (placed_ids out)"
proof (induction cs arbitrary: w out)
  case Nil
  then show ?case by simp
next
  case (Cons c cs)
  from run_Cons_Inr [OF Cons.prems(1)] obtain w1 o1 o2 where
    s: "step c w = Inr (w1, o1)" and r: "run cs w1 = Inr (w', o2)" and o: "out = o1 @ o2"
    by blast
  note a = step_ids [OF s Cons.prems(2)]
  from Cons.IH [OF r a(1)] have b: "ids_inv w'" "nextBuildId w1 \<le> nextBuildId w'"
    "\<forall>i\<in>set (placed_ids o2). nextBuildId w1 \<le> i \<and> i < nextBuildId w'"
    "sorted_wrt (<) (placed_ids o2)"
    "set (map bid (builds w')) \<subseteq> set (map bid (builds w1)) \<union> set (placed_ids o2)"
    by simp_all
  have 1: "nextBuildId w \<le> nextBuildId w'" using a(2) b(2) by simp
  have 2: "\<forall>i\<in>set (placed_ids out). nextBuildId w \<le> i \<and> i < nextBuildId w'"
    using a(2,3) b(2,3) o by (fastforce simp: placed_ids_append)
  have 3: "sorted_wrt (<) (placed_ids out)"
    using a(3,4) b(3,4) o by (fastforce simp: placed_ids_append sorted_wrt_append)
  have 4: "set (map bid (builds w')) \<subseteq> set (map bid (builds w)) \<union> set (placed_ids out)"
  proof -
    have "set (placed_ids out) = set (placed_ids o1) \<union> set (placed_ids o2)"
      using o by (simp add: placed_ids_append)
    with a(5) b(5) show ?thesis by blast
  qed
  from b(1) 1 2 3 4 show ?case by simp
qed

text \<open>
  Claim C5. In every run from the initial world, whatever commands it interleaves, the ids
  announced by \<open>buildPlaced\<close> are strictly increasing in the order of creation, hence
  pairwise distinct, also when builds were removed by a disconnect in between; they lie
  between 1 and the counter, and the builds that are stored carry such ids, in
  increasing order.
\<close>

theorem build_ids_increase:
  "run cs world0 = Inr (w, out) \<Longrightarrow>
     sorted_wrt (<) (placed_ids out) \<and> distinct (placed_ids out)
   \<and> (\<forall>i\<in>set (placed_ids out). 1 \<le> i \<and> i < nextBuildId w)
   \<and> sorted_wrt (<) (map bid (builds w))
   \<and> set (map bid (builds w)) \<subseteq> set (placed_ids out)"
proof -
  assume r: "run cs world0 = Inr (w, out)"
  have "ids_inv world0" by (simp add: ids_inv_def world0_def)
  from run_ids [OF r this] have a: "ids_inv w"
    "\<forall>i\<in>set (placed_ids out). nextBuildId world0 \<le> i \<and> i < nextBuildId w"
    "sorted_wrt (<) (placed_ids out)"
    "set (map bid (builds w)) \<subseteq> set (map bid (builds world0)) \<union> set (placed_ids out)"
    by simp_all
  from a(3) have "distinct (placed_ids out)"
    by (simp add: strict_sorted_iff)
  with a show ?thesis by (simp add: ids_inv_def world0_def)
qed

lemma run_place_twice:
  "run [Connection ''A'' (1/2) (1/2),
        PlaceBuild ''A'' \<lparr>d_type = ''wall'', d_x = Num 5, d_y = Num 1, d_z = Num 5,
                          d_rotY = None\<rparr>,
        Disconnect ''A'',
        PlaceBuild ''B'' \<lparr>d_type = ''roof'', d_x = Num 2, d_y = Num 1, d_z = Num 2,
                          d_rotY = Some (Num 3)\<rparr>] world0
   = Inr (\<lparr>players = [],
           builds = [\<lparr>bid = 2, ownerId = ''B'', btype = ''roof'', b_x = Num 2, b_y = Num 1,
                      b_z = Num 2, rotY = Num 3\<rparr>],
           nextBuildId = 3\<rparr>,
          [(ToSession ''A'', InitState ''A''
              [(''A'', \<lparr>p_x = Num 0, p_y = Num 1, p_z = Num 0, rotationY = Num 0,
                        health = 100\<rparr>)] []),
           (ToOthers ''A'', PlayerJoined ''A''
              \<lparr>p_x = Num 0, p_y = Num 1, p_z = Num 0, rotationY = Num 0, health = 100\<rparr>),
           (ToAll, BuildPlaced \<lparr>bid = 1, ownerId = ''A'', btype = ''wall'', b_x = Num 5,
                                 b_y = Num 1, b_z = Num 5, rotY = Num 0\<rparr>),
           (ToAll, PlayerLeft ''A''),
           (ToAll, BuildPlaced \<lparr>bid = 2, ownerId = ''B'', btype = ''roof'', b_x = Num 2,
                                 b_y = Num 1, b_z = Num 2, rotY = Num 3\<rparr>)])"
  by (simp add: world0_def on_connection_def on_placeBuild_def on_disconnect_def Let_def
      clamp_Num js_sub_def)

theorem build_ids_increase_witness:
  "placed_ids
     [(ToSession ''A'', InitState ''A''
              [(''A'', \<lparr>p_x = Num 0, p_y = Num 1, p_z = Num 0, rotationY = Num 0,
                        health = 100\<rparr>)] []),
      (ToOthers ''A'', PlayerJoined ''A''
              \<lparr>p_x = Num 0, p_y = Num 1, p_z = Num 0, rotationY = Num 0, health = 100\<rparr>),
      (ToAll, BuildPlaced \<lparr>bid = 1, ownerId = ''A'', btype = ''wall'', b_x = Num 5,
                                 b_y = Num 1, b_z = Num 5, rotY = Num 0\<rparr>),
      (ToAll, PlayerLeft ''A''),
      (ToAll, BuildPlaced \<lparr>bid = 2, ownerId = ''B'', btype = ''roof'', b_x = Num 2,
                                 b_y = Num 1, b_z = Num 2, rotY = Num 3\<rparr>)] = [1, 2]
   \<and> sorted_wrt (<) [1, 2 :: int] \<and> distinct [1, 2 :: int]"
  using build_ids_increase [OF run_place_twice] by simp

subsection \<open>Runs: build types\<close>

lemma announced_append: "announced (xs @ ys) = announced xs @ announced ys"
  by (induction xs rule: announced.induct) simp_all

lemma damage_announces:
  assumes "damage v r1 r2 w = Inr (w', out)"
  shows "announced out = []"
proof -
  from assms obtain p where Some: "map_of (players w) v = Some p"
    by (cases "map_of (players w) v") (simp_all add: damage_def)
  show ?thesis
  proof (cases "20 < health p")
    case True
    from damage_above [OF Some True, of r1 r2] assms show ?thesis by auto
  next
    case False
    then have "health p \<le> 20" by simp
    from damage_respawn [OF Some this, of r1 r2] assms show ?thesis by auto
  qed
qed

lemma on_shoot_announces:
  assumes "on_shoot sid data r1 r2 w = Inr (w', out)"
  shows "announced out = []"
proof -
  from on_shoot_cases [of sid data r1 r2 w] show ?thesis
  proof
    assume "on_shoot sid data r1 r2 w = Inr (w, [])"
    with assms show ?thesis by simp
  next
    assume "\<exists>v p. map_of (players w) v = Some p \<and> on_shoot sid data r1 r2 w = damage v r1 r2 w"
    then obtain v where "on_shoot sid data r1 r2 w = damage v r1 r2 w" by blast
    with assms have "damage v r1 r2 w = Inr (w', out)" by simp
    then show ?thesis by (rule damage_announces)
  qed
qed

text \<open>One step either places a build, or announces none and keeps, or drops, builds
  that were there.\<close>

lemma step_announces:
  assumes "step c w = Inr (w', out)"
  shows "(\<exists>sid data b. c = PlaceBuild sid data \<and> bid b = nextBuildId w \<and> ownerId b = sid
            \<and> btype b = d_type data \<and> builds w' = builds w @ [b]
            \<and> nextBuildId w' = nextBuildId w + 1 \<and> announced out = [b])
       \<or> ((\<forall>n cs. sent n (c # cs) = sent n cs) \<and> nextBuildId w' = nextBuildId w
            \<and> announced out = [] \<and> subseq (builds w') (builds w))"
proof (cases c)
  case (Connection sid r1 r2)
  with assms show ?thesis by (auto simp: on_connection_def Let_def)
next
  case (Move sid data)
  with assms show ?thesis by (auto simp: on_move_def split: option.splits)
next
  case (Shoot sid data r1 r2)
  with assms on_shoot_frame [of sid data r1 r2 w w' out]
    on_shoot_announces [of sid data r1 r2 w w' out]
  show ?thesis by simp
next
  case (PlaceBuild sid data)
  with assms show ?thesis by (auto simp: on_placeBuild_def Let_def)
next
  case (Disconnect sid)
  with assms show ?thesis by (auto simp: on_disconnect_def)
next
  case Tick
  with assms show ?thesis by (auto simp: on_tick_def)
qed

lemma run_sent:
  "run cs w = Inr (w', out) \<Longrightarrow>
     map (\<lambda>b. (bid b, ownerId b, btype b)) (announced out) = sent (nextBuildId w) cs
   \<and> subseq (builds w') (builds w @ announced out)"
proof (induction cs arbitrary: w out)
  case Nil
  then show ?case by simp
next
  case (Cons c cs)
  from run_Cons_Inr [OF Cons.prems] obtain w1 o1 o2 where
    s: "step c w = Inr (w1, o1)" and r: "run cs w1 = Inr (w', o2)" and o: "out = o1 @ o2"
    by blast
  from Cons.IH [OF r] have
    ih1: "map (\<lambda>b. (bid b, ownerId b, btype b)) (announced o2) = sent (nextBuildId w1) cs"
    and ih2: "subseq (builds w') (builds w1 @ announced o2)" by simp_all
  from step_announces [OF s] show ?case
  proof
    assume "\<exists>sid data b. c = PlaceBuild sid data \<and> bid b = nextBuildId w \<and> ownerId b = sid
            \<and> btype b = d_type data \<and> builds w1 = builds w @ [b]
            \<and> nextBuildId w1 = nextBuildId w + 1 \<and> announced o1 = [b]"
    then obtain sid data b where c: "c = PlaceBuild sid data"
      and b: "bid b = nextBuildId w" "ownerId b = sid" "btype b = d_type data"
      and w1: "builds w1 = builds w @ [b]" "nextBuildId w1 = nextBuildId w + 1"
      and a: "announced o1 = [b]" by blast
    from ih1 b w1 a have "map (\<lambda>b. (bid b, ownerId b, btype b)) (announced out)
        = sent (nextBuildId w) (c # cs)"
      by (simp add: o announced_append c)
    moreover from ih2 w1 a have "subseq (builds w') (builds w @ announced out)"
      by (simp add: o announced_append)
    ultimately show ?thesis by simp
  next
    assume "(\<forall>n cs. sent n (c # cs) = sent n cs) \<and> nextBuildId w1 = nextBuildId w
            \<and> announced o1 = [] \<and> subseq (builds w1) (builds w)"
    then have sn: "sent (nextBuildId w) (c # cs) = sent (nextBuildId w) cs"
      and n: "nextBuildId w1 = nextBuildId w" and a: "announced o1 = []"
      and sub: "subseq (builds w1) (builds w)" by simp_all
    from ih1 n a sn have "map (\<lambda>b. (bid b, ownerId b, btype b)) (announced out)
        = sent (nextBuildId w) (c # cs)"
      by (simp add: o announced_append)
    moreover have "subseq (builds w') (builds w @ announced out)"
    proof -
      from sub have "subseq (builds w1 @ announced o2) (builds w @ announced o2)"
        by (simp add: subseq_append)
      with ih2 have "subseq (builds w') (builds w @ announced o2)"
        by (rule subseq_order.trans)
      with a show ?thesis by (simp add: o announced_append)
    qed
    ultimately show ?thesis by simp
  qed
qed

lemma sent_member:
  "(k, s, t) \<in> set (sent n cs) \<Longrightarrow> \<exists>data. PlaceBuild s data \<in> set cs \<and> t = d_type data"
  by (induction n cs rule: sent.induct) auto

text \<open>
  Claim C7 says that a stored build always has one of the four types. The handler stores
  the type it receives and checks nothing: a command with the type \<open>banana\<close> leaves a
  build of that type in the world.
\<close>

theorem untyped_build_stored:
  "run [Connection ''A'' (1/2) (1/2),
        PlaceBuild ''A'' \<lparr>d_type = ''banana'', d_x = Num 0, d_y = Num 0, d_z = Num 0,
                          d_rotY = None\<rparr>] world0
   = Inr (\<lparr>players = [(''A'', \<lparr>p_x = Num 0, p_y = Num 1, p_z = Num 0, rotationY = Num 0,
                               health = 100\<rparr>)],
           builds = [\<lparr>bid = 1, ownerId = ''A'', btype = ''banana'', b_x = Num 0, b_y = Num 0,
                      b_z = Num 0, rotY = Num 0\<rparr>],
           nextBuildId = 2\<rparr>,
          [(ToSession ''A'', InitState ''A''
              [(''A'', \<lparr>p_x = Num 0, p_y = Num 1, p_z = Num 0, rotationY = Num 0,
                        health = 100\<rparr>)] []),
           (ToOthers ''A'', PlayerJoined ''A''
              \<lparr>p_x = Num 0, p_y = Num 1, p_z = Num 0, rotationY = Num 0, health = 100\<rparr>),
           (ToAll, BuildPlaced \<lparr>bid = 1, ownerId = ''A'', btype = ''banana'', b_x = Num 0,
                                 b_y = Num 0, b_z = Num 0, rotY = Num 0\<rparr>)])
   \<and> ''banana'' \<notin> build_types"
  by (simp add: world0_def on_connection_def on_placeBuild_def Let_def
      clamp_Num js_sub_def build_types_def)

text \<open>
  Claim C7, amended. A build has the type that the \<open>placeBuild\<close> command which created it
  carries, stored as sent: in every run from the initial world the builds announced are,
  in order, one for each \<open>placeBuild\<close> command, the \<open>k\<close>-th with the id \<open>k\<close>, the session of
  the \<open>k\<close>-th command as owner and its type string as type, and the stored builds are a
  subsequence of the announced ones, so no build changes after its creation. When every
  \<open>placeBuild\<close> command of the run carries one of the four types, so does every stored
  build.
\<close>

theorem build_type_as_sent:
  "run cs world0 = Inr (w, out) \<Longrightarrow>
     map (\<lambda>b. (bid b, ownerId b, btype b)) (announced out) = sent 1 cs
   \<and> subseq (builds w) (announced out)
   \<and> (list_all typed_command cs \<longrightarrow> (\<forall>b\<in>set (builds w). btype b \<in> build_types))"
proof -
  assume r: "run cs world0 = Inr (w, out)"
  from run_sent [OF r]
  have a: "map (\<lambda>b. (bid b, ownerId b, btype b)) (announced out) = sent 1 cs"
    and s: "subseq (builds w) (announced out)"
    by (simp_all add: world0_def)
  have "list_all typed_command cs \<longrightarrow> (\<forall>b\<in>set (builds w). btype b \<in> build_types)"
  proof (intro impI ballI)
    fix b assume t: "list_all typed_command cs" and m: "b \<in> set (builds w)"
    from list_emb_set [OF s m] have "b \<in> set (announced out)" by blast
    then have "(bid b, ownerId b, btype b)
        \<in> set (map (\<lambda>b. (bid b, ownerId b, btype b)) (announced out))" by force
    then have "(bid b, ownerId b, btype b) \<in> set (sent 1 cs)" by (simp only: a)
    from sent_member [OF this] obtain data where
      p: "PlaceBuild (ownerId b) data \<in> set cs" and e: "btype b = d_type data" by blast
    from t have "\<forall>c\<in>set cs. typed_command c" by (simp add: list_all_iff)
    with p have "typed_command (PlaceBuild (ownerId b) data)" by blast
    with e show "btype b \<in> build_types" by simp
  qed
  with a s show ?thesis by simp
qed

theorem build_type_as_sent_witness:
  "map (\<lambda>b. (bid b, ownerId b, btype b))
     (announced
        [(ToSession ''A'', InitState ''A''
              [(''A'', \<lparr>p_x = Num 0, p_y = Num 1, p_z = Num 0, rotationY = Num 0,
                        health = 100\<rparr>)] []),
         (ToOthers ''A'', PlayerJoined ''A''
              \<lparr>p_x = Num 0, p_y = Num 1, p_z = Num 0, rotationY = Num 0, health = 100\<rparr>),
         (ToAll, BuildPlaced \<lparr>bid = 1, ownerId = ''A'', btype = ''wall'', b_x = Num 5,
                                 b_y = Num 1, b_z = Num 5, rotY = Num 0\<rparr>),
         (ToAll, PlayerLeft ''A''),
         (ToAll, BuildPlaced \<lparr>bid = 2, ownerId = ''B'', btype = ''roof'', b_x = Num 2,
                                 b_y = Num 1, b_z = Num 2, rotY = Num 3\<rparr>)])
   = [(1, ''A'', ''wall''), (2, ''B'', ''roof'')]
   \<and> list_all typed_command
     [Connection ''A'' (1/2) (1/2),
        PlaceBuild ''A'' \<lparr>d_type = ''wall'', d_x = Num 5, d_y = Num 1, d_z = Num 5,
                          d_rotY = None\<rparr>,
        Disconnect ''A'',
        PlaceBuild ''B'' \<lparr>d_type = ''roof'', d_x = Num 2, d_y = Num 1, d_z = Num 2,
                          d_rotY = Some (Num 3)\<rparr>]
   \<and> btype \<lparr>bid = 2, ownerId = ''B'', btype = ''roof'', b_x = Num 2, b_y = Num 1,
            b_z = Num 2, rotY = Num 3\<rparr> \<in> build_types"
  using build_type_as_sent [OF run_place_twice] by (simp add: build_types_def)

subsection \<open>The example scenario\<close>

text \<open>
  Two sessions connect, the first shoots the second through its sphere, places a wall and
  disconnects: the hit is announced with health 80, the wall gets id 1 and disappears
  with its owner, and the next snapshot holds the second player and no build.
\<close>

lemma spec_scenario:
  "run [Connection ''A'' (1/2) (1/2), Connection ''B'' (1/2) (3/4),
        Shoot ''A'' \<lparr>origin = \<lparr>v_x = Num 0, v_y = Num (3/2), v_z = Num 0\<rparr>,
                    direction = \<lparr>v_x = Num 0, v_y = Num 0, v_z = Num 1\<rparr>\<rparr> (1/4) (1/4),
        PlaceBuild ''A'' \<lparr>d_type = ''wall'', d_x = Num 5, d_y = Num 1, d_z = Num 5,
                          d_rotY = None\<rparr>,
        Disconnect ''A'', Tick] world0
   = Inr (\<lparr>players = [(''B'', \<lparr>p_x = Num 0, p_y = Num 1, p_z = Num (15/2), rotationY = Num 0,
                               health = 80\<rparr>)],
           builds = [], nextBuildId = 2\<rparr>,
          [(ToSession ''A'', InitState ''A''
              [(''A'', \<lparr>p_x = Num 0, p_y = Num 1, p_z = Num 0, rotationY = Num 0,
                        health = 100\<rparr>)] []),
           (ToOthers ''A'', PlayerJoined ''A''
              \<lparr>p_x = Num 0, p_y = Num 1, p_z = Num 0, rotationY = Num 0, health = 100\<rparr>),
           (ToSession ''B'', InitState ''B''
              [(''A'', \<lparr>p_x = Num 0, p_y = Num 1, p_z = Num 0, rotationY = Num 0,
                        health = 100\<rparr>),
               (''B'', \<lparr>p_x = Num 0, p_y = Num 1, p_z = Num (15/2), rotationY = Num 0,
                        health = 100\<rparr>)] []),
           (ToOthers ''B'', PlayerJoined ''B''
              \<lparr>p_x = Num 0, p_y = Num 1, p_z = Num (15/2), rotationY = Num 0,
               health = 100\<rparr>),
           (ToAll, PlayerHit ''B'' 80),
           (ToAll, BuildPlaced \<lparr>bid = 1, ownerId = ''A'', btype = ''wall'', b_x = Num 5,
                                 b_y = Num 1, b_z = Num 5, rotY = Num 0\<rparr>),
           (ToAll, PlayerLeft ''A''),
           (ToAll, WorldState
              [(''B'', \<lparr>p_x = Num 0, p_y = Num 1, p_z = Num (15/2), rotationY = Num 0,
                        health = 80\<rparr>)] [])])"
  by (simp add: world0_def on_connection_def on_placeBuild_def on_disconnect_def on_tick_def
      on_shoot_def resolveHit_def scan_def scan_step_def damage_def Let_def js_sub_def
      clamp_Num)

end
